theory Spec2Isabelle
  imports Complex_Main "HOL-Library.DAList"
begin

section \<open>Honeycomb Reversi: cube coordinates and the board\<close>

text \<open>
  \<open>App.jsx\<close> comes in two stages: the component for two players, and the component
  that adds a computer opponent. The coordinate helpers, the board and the move engine
  are the same in both; the turn controller below is the one of the first stage, the
  computer player the one of the second.

  The game is played on a hexagonal board addressed by cube coordinates. A coordinate is
  the object \<open>{q, r, s}\<close> of the source; the components are integers throughout the
  program (loop counters and sums of them).
\<close>

record cube =
  q :: int
  r :: int
  s :: int

text \<open>
  The board is a JavaScript \<open>Map\<close> from the key string \<open>`${q},${r},${s}`\<close> to the
  piece colour. The template string is one-to-one on integer triples, so a key is
  modelled by the triple it prints; \<open>keyOf\<close> is the template, and splitting a key at the
  commas gives the three components back.
\<close>

type_synonym key = "int \<times> int \<times> int"

definition keyOf :: "cube \<Rightarrow> key" where
  "keyOf c = (q c, r c, s c)"

definition coordOf :: "key \<Rightarrow> cube" where
  "coordOf k = (case k of (a, b, c) \<Rightarrow> \<lparr>q = a, r = b, s = c\<rparr>)"

datatype player = Black | White

text \<open>
  A \<open>Map\<close> keeps its entries in insertion order with no key twice; \<open>set\<close> on a
  present key replaces the value in place and on an absent key appends. This is the type
  of association lists with distinct keys and its \<open>update\<close>.
\<close>

type_synonym board = "(key, player) alist"

definition cubeAdd :: "cube \<Rightarrow> cube \<Rightarrow> cube" where
  "cubeAdd a b = \<lparr>q = q a + q b, r = r a + r b, s = s a + s b\<rparr>"

definition directions :: "cube list" where
  "directions =
     [\<lparr>q = 1, r = -1, s = 0\<rparr>,
      \<lparr>q = 1, r = 0, s = -1\<rparr>,
      \<lparr>q = 0, r = 1, s = -1\<rparr>,
      \<lparr>q = -1, r = 1, s = 0\<rparr>,
      \<lparr>q = -1, r = 0, s = 1\<rparr>,
      \<lparr>q = 0, r = -1, s = 1\<rparr>]"

definition BOARD_RADIUS :: int where
  "BOARD_RADIUS = 4"

definition isInBounds :: "cube \<Rightarrow> bool" where
  "isInBounds coord \<longleftrightarrow>
     \<bar>q coord\<bar> \<le> BOARD_RADIUS \<and> \<bar>r coord\<bar> \<le> BOARD_RADIUS \<and> \<bar>s coord\<bar> \<le> BOARD_RADIUS"

definition createInitialBoard :: board where
  "createInitialBoard =
     DAList.update (0, -1, 1) White
    (DAList.update (1, 0, -1) White
    (DAList.update (-1, 1, 0) White
    (DAList.update (-1, 0, 1) Black
    (DAList.update (0, 1, -1) Black
    (DAList.update (1, -1, 0) Black
    (DAList.update (0, 0, 0) White DAList.empty))))))"

section \<open>The move engine\<close>

text \<open>
  \<open>findFlipsInDirection\<close> walks from \<open>coord + direction\<close> while the current cell is in
  bounds. \<open>findFlipsWalk\<close> is its \<open>while\<close> loop, with the loop variables \<open>current\<close> and
  \<open>flips\<close> as arguments. An absent key reads as \<open>undefined\<close>, which \<open>!piece\<close> takes
  for an empty cell; the two colour strings are truthy.

  The program calls the function with the six entries of \<open>directions\<close> only. For the
  zero vector the source loop would never leave an opponent cell (\<open>current\<close> does not
  move); the model stops there with the empty list, so that it is a total function, and
  agrees with the source on every direction for which the source loop ends.
\<close>

definition zeroCube :: cube where
  "zeroCube = \<lparr>q = 0, r = 0, s = 0\<rparr>"

function findFlipsWalk :: "cube \<Rightarrow> cube \<Rightarrow> player \<Rightarrow> board \<Rightarrow> key list \<Rightarrow> key list" where
  "findFlipsWalk current direction player currentBoard flips =
     (if isInBounds current then
        (case DAList.lookup currentBoard (keyOf current) of
           None \<Rightarrow> []
         | Some piece \<Rightarrow>
             if piece = player then flips
             else if direction = zeroCube then []
             else findFlipsWalk (cubeAdd current direction) direction player currentBoard
                    (flips @ [keyOf current]))
      else [])"
  by pat_completeness auto

definition towards :: "cube \<Rightarrow> cube \<Rightarrow> int" where
  "towards direction c = sgn (q direction) * q c + sgn (r direction) * r c + sgn (s direction) * s c"

lemma towards_bound: "isInBounds c \<Longrightarrow> towards d c \<le> 12"
proof -
  have b: "sgn x * y \<le> 4" if "\<bar>y\<bar> \<le> 4" for x y :: int
    using that by (cases "x = 0"; cases "x < 0") (auto simp: sgn_if)
  assume "isInBounds c"
  then have "sgn (q d) * q c \<le> 4" "sgn (r d) * r c \<le> 4" "sgn (s d) * s c \<le> 4"
    by (simp_all add: isInBounds_def BOARD_RADIUS_def b)
  then show ?thesis by (simp add: towards_def)
qed

lemma towards_step: "d \<noteq> zeroCube \<Longrightarrow> towards d c < towards d (cubeAdd c d)"
proof -
  assume nz: "d \<noteq> zeroCube"
  have e: "sgn x * (y + x) = sgn x * y + \<bar>x\<bar>" for x y :: int
    by (simp add: algebra_simps sgn_if)
  have "q d \<noteq> 0 \<or> r d \<noteq> 0 \<or> s d \<noteq> 0"
    using nz by (cases d) (auto simp: zeroCube_def)
  then have "0 < \<bar>q d\<bar> + \<bar>r d\<bar> + \<bar>s d\<bar>" by auto
  then show ?thesis by (simp add: towards_def cubeAdd_def e)
qed

termination findFlipsWalk
proof (relation "measure (\<lambda>(current, direction, player, currentBoard, flips).
                   nat (13 - towards direction current))")
  show "wf (measure (\<lambda>(current, direction, player, currentBoard, flips).
                   nat (13 - towards direction current)))" by simp
next
  fix current direction :: cube and player :: player and currentBoard :: board
    and flips :: "key list" and x2 :: player
  assume "isInBounds current" "direction \<noteq> zeroCube"
  then show "((cubeAdd current direction, direction, player, currentBoard, flips @ [keyOf current]),
              current, direction, player, currentBoard, flips)
             \<in> measure (\<lambda>(current, direction, player, currentBoard, flips).
                   nat (13 - towards direction current))"
    using towards_bound [of current direction] towards_step [of direction current] by simp
qed

declare findFlipsWalk.simps [simp del]

definition findFlipsInDirection :: "cube \<Rightarrow> cube \<Rightarrow> player \<Rightarrow> board \<Rightarrow> key list" where
  "findFlipsInDirection coord direction player currentBoard =
     findFlipsWalk (cubeAdd coord direction) direction player currentBoard []"

text \<open>
  \<open>getFlips\<close>: nothing on an occupied cell (\<open>currentBoard.has(key)\<close>); otherwise the
  \<open>for\<close> loop over \<open>directions\<close>, appending each non-empty chain to \<open>allFlips\<close>.
\<close>

fun getFlipsLoop :: "cube \<Rightarrow> player \<Rightarrow> board \<Rightarrow> cube list \<Rightarrow> key list \<Rightarrow> key list" where
  "getFlipsLoop coord player currentBoard [] allFlips = allFlips"
| "getFlipsLoop coord player currentBoard (dir # dirs) allFlips =
     (let flips = findFlipsInDirection coord dir player currentBoard in
      getFlipsLoop coord player currentBoard dirs
        (if length flips > 0 then allFlips @ flips else allFlips))"

definition getFlips :: "cube \<Rightarrow> player \<Rightarrow> board \<Rightarrow> key list" where
  "getFlips coord player currentBoard =
     (if DAList.lookup currentBoard (keyOf coord) \<noteq> None then []
      else getFlipsLoop coord player currentBoard directions [])"

text \<open>
  \<open>calculateValidMoves\<close>: the two nested \<open>for\<close> loops over \<open>q\<close> and \<open>r\<close> from
  \<open>-BOARD_RADIUS\<close> to \<open>BOARD_RADIUS\<close>, with \<open>s = -q - r\<close>. The result is a \<open>Set\<close> of
  keys; it is modelled by the list of its elements in insertion order (the order
  \<open>Array.from\<close> reads them in). Every pair \<open>(q, r)\<close> gives a different key, so no
  \<open>add\<close> meets a key that is already there (\<open>calculateValidMoves_distinct\<close> below), and
  \<open>size\<close> is the length of the list.
\<close>

definition calculateValidMoves :: "player \<Rightarrow> board \<Rightarrow> key list" where
  "calculateValidMoves player currentBoard =
     concat (map (\<lambda>qv. concat (map (\<lambda>rv.
        (let sv = - qv - rv; coord = \<lparr>q = qv, r = rv, s = sv\<rparr> in
         if \<not> isInBounds coord then []
         else if length (getFlips coord player currentBoard) > 0 then [keyOf coord]
         else []))
       [- BOARD_RADIUS .. BOARD_RADIUS]))
     [- BOARD_RADIUS .. BOARD_RADIUS])"

text \<open>
  \<open>calculateScores\<close>: one pass over the entries of the map; a piece that is not
  \<open>'black'\<close> counts as white.
\<close>

record scores =
  black :: nat
  white :: nat

definition calculateScores :: "board \<Rightarrow> scores" where
  "calculateScores currentBoard =
     fold (\<lambda>entry sc.
             if snd entry = Black then sc\<lparr>black := black sc + 1\<rparr>
             else sc\<lparr>white := white sc + 1\<rparr>)
          (DAList.impl_of currentBoard) \<lparr>black = 0, white = 0\<rparr>"

text \<open>
  Placing a piece: the copy \<open>new Map(board)\<close>, the \<open>set\<close> of the played key and the
  \<open>forEach\<close> over the flipped keys. The source writes these lines in \<open>handleCellClick\<close>,
  in \<open>evaluateFutureState\<close> and in \<open>executeCPUMove\<close>; the specification calls them
  \<open>withPlacement\<close>.
\<close>

definition withPlacement :: "board \<Rightarrow> key \<Rightarrow> player \<Rightarrow> key list \<Rightarrow> board" where
  "withPlacement currentBoard k player flips =
     fold (\<lambda>flipKey newBoard. DAList.update flipKey player newBoard) flips
       (DAList.update k player currentBoard)"

definition opponentOf :: "player \<Rightarrow> player" where
  "opponentOf player = (if player = Black then White else Black)"

section \<open>The turn controller\<close>

text \<open>
  The state of the component \<open>HoneycombReversi\<close>: its five \<open>useState\<close> cells.
\<close>

record game =
  board :: board
  currentPlayer :: player
  validMoves :: "key list"
  gameOver :: bool
  scores :: scores

definition initialGame :: game where
  "initialGame =
     \<lparr>board = createInitialBoard, currentPlayer = Black, validMoves = [],
      gameOver = False, scores = \<lparr>black = 3, white = 4\<rparr>\<rparr>"

text \<open>
  The effect that runs after a render in which \<open>currentPlayer\<close> or \<open>board\<close> changed: it
  stores the legal moves of the player to move, and when there are none it either ends
  the game or passes the turn.
\<close>

definition turnEffect :: "game \<Rightarrow> game" where
  "turnEffect g =
     (let moves = calculateValidMoves (currentPlayer g) (board g);
          g1 = g\<lparr>validMoves := moves\<rparr>
      in if length moves = 0 then
           (let opponent = opponentOf (currentPlayer g);
                opponentMoves = calculateValidMoves opponent (board g)
            in if length opponentMoves = 0 then g1\<lparr>gameOver := True\<rparr>
               else g1\<lparr>currentPlayer := opponent\<rparr>)
         else g1)"

text \<open>
  \<open>handleCellClick\<close> returns nothing (\<open>undefined\<close>) on every path; what it does is the
  state it leaves. The arguments are the \<open>q\<close>, \<open>r\<close> and \<open>s\<close> of the clicked cell.
\<close>

definition handleCellClick :: "int \<Rightarrow> int \<Rightarrow> int \<Rightarrow> game \<Rightarrow> game" where
  "handleCellClick qv rv sv g =
     (if gameOver g then g
      else let k = (qv, rv, sv) in
        if k \<notin> set (validMoves g) then g
        else
          (let coord = \<lparr>q = qv, r = rv, s = sv\<rparr>;
               flips = getFlips coord (currentPlayer g) (board g);
               newBoard = withPlacement (board g) k (currentPlayer g) flips
           in g\<lparr>board := newBoard,
                scores := calculateScores newBoard,
                currentPlayer := opponentOf (currentPlayer g)\<rparr>))"

text \<open>
  How a call of \<open>handleCellClick\<close> completes. The function has no \<open>throw\<close>; its two
  guards leave with a bare \<open>return\<close> and the body ends without one, so each of the
  three exits hands \<open>undefined\<close> to the caller.
\<close>

datatype completion = ReturnsUndefined | Throws

definition handleCellClick_completion :: "int \<Rightarrow> int \<Rightarrow> int \<Rightarrow> game \<Rightarrow> completion" where
  "handleCellClick_completion qv rv sv g =
     (if gameOver g then ReturnsUndefined
      else if (qv, rv, sv) \<notin> set (validMoves g) then ReturnsUndefined
      else ReturnsUndefined)"

definition resetGame :: "game \<Rightarrow> game" where
  "resetGame g =
     g\<lparr>board := createInitialBoard, currentPlayer := Black, gameOver := False,
       scores := \<lparr>black = 3, white = 4\<rparr>\<rparr>"

text \<open>The banner shown when the game is over names the winner from the stored scores.\<close>

datatype outcome = BlackWins | WhiteWins | Draw

definition winner :: "game \<Rightarrow> outcome" where
  "winner g =
     (if black (scores g) > white (scores g) then BlackWins
      else if white (scores g) > black (scores g) then WhiteWins
      else Draw)"

text \<open>The stored score of one colour.\<close>

definition scoreOf :: "player \<Rightarrow> scores \<Rightarrow> nat" where
  "scoreOf player sc = (if player = Black then black sc else white sc)"

text \<open>
  The component is driven by React: after a render in which \<open>currentPlayer\<close> or
  \<open>board\<close> changed the effect runs, and it runs again when it changed \<open>currentPlayer\<close>
  itself; a click or a reset is handled once no effect is left to run. \<open>Pending\<close> marks
  a state whose effect is still to run, \<open>Idle\<close> one that waits for the next event. A
  click that \<open>handleCellClick\<close> turns away sets no state, so it starts no render.
\<close>

datatype phase = Pending | Idle

inductive reach :: "phase \<Rightarrow> game \<Rightarrow> bool" where
  mount: "reach Pending initialGame"
| effect_again:
    "reach Pending g \<Longrightarrow> currentPlayer (turnEffect g) \<noteq> currentPlayer g \<Longrightarrow>
     reach Pending (turnEffect g)"
| effect_done:
    "reach Pending g \<Longrightarrow> currentPlayer (turnEffect g) = currentPlayer g \<Longrightarrow>
     reach Idle (turnEffect g)"
| click:
    "reach Idle g \<Longrightarrow> \<not> gameOver g \<Longrightarrow> (qv, rv, sv) \<in> set (validMoves g) \<Longrightarrow>
     reach Pending (handleCellClick qv rv sv g)"
| reset: "reach Idle g \<Longrightarrow> reach Pending (resetGame g)"

text \<open>
  The same states with the number of moves played since the opening: a click that is
  taken counts one, and a reset starts from zero again.
\<close>

inductive reachAfter :: "nat \<Rightarrow> phase \<Rightarrow> game \<Rightarrow> bool" where
  mounted: "reachAfter 0 Pending initialGame"
| effect_runs_again:
    "reachAfter n Pending g \<Longrightarrow> currentPlayer (turnEffect g) \<noteq> currentPlayer g \<Longrightarrow>
     reachAfter n Pending (turnEffect g)"
| effect_settles:
    "reachAfter n Pending g \<Longrightarrow> currentPlayer (turnEffect g) = currentPlayer g \<Longrightarrow>
     reachAfter n Idle (turnEffect g)"
| click_taken:
    "reachAfter n Idle g \<Longrightarrow> \<not> gameOver g \<Longrightarrow> (qv, rv, sv) \<in> set (validMoves g) \<Longrightarrow>
     reachAfter (Suc n) Pending (handleCellClick qv rv sv g)"
| reset_done: "reachAfter n Idle g \<Longrightarrow> reachAfter 0 Pending (resetGame g)"

text \<open>
  Boards alone: \<open>boardAfter n b\<close> says that \<open>b\<close> is the opening board (what creation
  and reset give) followed by \<open>n\<close> legal moves, each by either player.
\<close>

inductive boardAfter :: "nat \<Rightarrow> board \<Rightarrow> bool" where
  first_board: "boardAfter 0 createInitialBoard"
| legal_move:
    "boardAfter n b \<Longrightarrow> k \<in> set (calculateValidMoves player b) \<Longrightarrow>
     boardAfter (Suc n) (withPlacement b k player (getFlips (coordOf k) player b))"

text \<open>Counting on a board: the pieces of one colour, and the occupied cells.\<close>

definition pieceCount :: "player \<Rightarrow> board \<Rightarrow> nat" where
  "pieceCount player b = length (filter (\<lambda>entry. snd entry = player) (DAList.impl_of b))"

definition occupied :: "board \<Rightarrow> nat" where
  "occupied b = length (DAList.impl_of b)"

text \<open>
  A cell of the board: a cube coordinate (\<open>q + r + s = 0\<close>) within the radius.
\<close>

definition onGrid :: "cube \<Rightarrow> bool" where
  "onGrid c \<longleftrightarrow> q c + r c + s c = 0 \<and> isInBounds c"

text \<open>The cells of a walk: \<open>walkCell coord direction i\<close> is \<open>coord + (i + 1) * direction\<close>.\<close>

definition stepsFrom :: "cube \<Rightarrow> cube \<Rightarrow> nat \<Rightarrow> cube" where
  "stepsFrom current direction n = ((\<lambda>c. cubeAdd c direction) ^^ n) current"

definition walkCell :: "cube \<Rightarrow> cube \<Rightarrow> nat \<Rightarrow> cube" where
  "walkCell coord direction i = stepsFrom (cubeAdd coord direction) direction i"

section \<open>The computer player\<close>

text \<open>
  The second component adds a scripted opponent that plays white. Its scores are
  JavaScript numbers; \<open>-Infinity\<close> marks a move that flips nothing. The numbers that
  occur at the highest difficulty are small multiples of one half, which real arithmetic
  gives exactly. The two lower difficulties add a random term; what is proved about
  them below holds whichever candidate the comparison of the scores prefers.
\<close>

datatype jsnum = NegInfinity | Num real

fun jsGreater :: "jsnum \<Rightarrow> jsnum \<Rightarrow> bool" where
  "jsGreater NegInfinity _ = False"
| "jsGreater (Num x) NegInfinity = True"
| "jsGreater (Num x) (Num y) = (x > y)"

datatype difficulty = EASY | NORMAL | HARD

definition cubeDistance :: "cube \<Rightarrow> int" where
  "cubeDistance coord = max (max \<bar>q coord\<bar> \<bar>r coord\<bar>) \<bar>s coord\<bar>"

definition evaluatePosition :: "int \<Rightarrow> int \<Rightarrow> int \<Rightarrow> real" where
  "evaluatePosition qv rv sv =
     (let distance = cubeDistance \<lparr>q = qv, r = rv, s = sv\<rparr> in
      if distance = BOARD_RADIUS then 10
      else if distance = BOARD_RADIUS - 1 then 5
      else if distance = 0 then 3
      else 1)"

definition evaluateFutureState :: "cube \<Rightarrow> player \<Rightarrow> board \<Rightarrow> real" where
  "evaluateFutureState coord player currentBoard =
     (let k = keyOf coord;
          flips = getFlips coord player currentBoard;
          newBoard = withPlacement currentBoard k player flips;
          opponent = opponentOf player;
          opponentMoves = calculateValidMoves opponent newBoard
      in - real (length opponentMoves) * 0.5)"

text \<open>
  \<open>evaluateMove\<close>: the last argument is the number \<open>Math.random()\<close> returns, which the
  two lower difficulties read. The state \<open>cpuDifficulty\<close> only ever holds one of the
  three values of \<open>CPU_DIFFICULTY\<close>, so the \<open>default\<close> branch of the \<open>switch\<close> is never
  taken.
\<close>

definition evaluateMove :: "cube \<Rightarrow> player \<Rightarrow> board \<Rightarrow> difficulty \<Rightarrow> real \<Rightarrow> jsnum" where
  "evaluateMove coord player currentBoard difficulty rnd =
     (let flips = getFlips coord player currentBoard in
      if length flips = 0 then NegInfinity
      else
        (let positionValue = evaluatePosition (q coord) (r coord) (s coord);
             flipCount = real (length flips)
         in case difficulty of
              EASY \<Rightarrow> Num (flipCount + rnd * 10)
            | NORMAL \<Rightarrow> Num (flipCount * 2 + positionValue + rnd * 3)
            | HARD \<Rightarrow> Num (flipCount * 3 + positionValue * 2
                            + evaluateFutureState coord player currentBoard)))"

text \<open>
  \<open>selectCPUMove\<close>: the loop over \<open>Array.from(validMoves)\<close> with its variables
  \<open>bestMove\<close> and \<open>bestScore\<close>; \<open>null\<close> is \<open>None\<close>. \<open>rnd i\<close> is the random number
  drawn while the candidate at index \<open>i\<close> is evaluated.
\<close>

fun selectCPUMoveLoop ::
  "key list \<Rightarrow> nat \<Rightarrow> player \<Rightarrow> board \<Rightarrow> difficulty \<Rightarrow> (nat \<Rightarrow> real) \<Rightarrow>
   key option \<Rightarrow> jsnum \<Rightarrow> key option" where
  "selectCPUMoveLoop [] i player currentBoard difficulty rnd bestMove bestScore = bestMove"
| "selectCPUMoveLoop (moveKey # rest) i player currentBoard difficulty rnd bestMove bestScore =
     (let coord = coordOf moveKey;
          score = evaluateMove coord player currentBoard difficulty (rnd i)
      in if jsGreater score bestScore
         then selectCPUMoveLoop rest (Suc i) player currentBoard difficulty rnd (Some moveKey) score
         else selectCPUMoveLoop rest (Suc i) player currentBoard difficulty rnd bestMove bestScore)"

definition selectCPUMove ::
  "key list \<Rightarrow> player \<Rightarrow> board \<Rightarrow> difficulty \<Rightarrow> (nat \<Rightarrow> real) \<Rightarrow> key option" where
  "selectCPUMove moves player currentBoard difficulty rnd =
     (if length moves = 0 then None
      else selectCPUMoveLoop moves 0 player currentBoard difficulty rnd None NegInfinity)"

text \<open>
  The state of the second component: the five cells of the first and four more.
\<close>

datatype mode = PVP | CPU

record cpuGame = game +
  gameMode :: "mode option"
  cpuDifficulty :: difficulty
  cpuThinking :: bool
  lastMove :: "key option"

text \<open>
  \<open>executeCPUMove\<close> sets \<open>cpuThinking\<close> and hands a callback to \<open>setTimeout\<close>, which
  runs it 1000 to 1500 ms later. \<open>cpuTimeoutCallback\<close> is that callback:
  \<open>currentBoard\<close> and \<open>difficulty\<close> are the \<open>board\<close> and \<open>cpuDifficulty\<close> of the render
  that called \<open>executeCPUMove\<close>, which the closure keeps, and \<open>g\<close> is the state at the
  time the callback runs, which its \<open>set\<close> calls update.
\<close>

definition cpuTimeoutCallback ::
  "(nat \<Rightarrow> real) \<Rightarrow> board \<Rightarrow> difficulty \<Rightarrow> cpuGame \<Rightarrow> cpuGame" where
  "cpuTimeoutCallback rnd currentBoard difficulty g =
     (let currentValidMoves = calculateValidMoves White currentBoard in
      if length currentValidMoves = 0 then g\<lparr>cpuThinking := False\<rparr>
      else
        (case selectCPUMove currentValidMoves White currentBoard difficulty rnd of
           None \<Rightarrow> g\<lparr>cpuThinking := False\<rparr>
         | Some moveKey \<Rightarrow>
             (let coord = coordOf moveKey;
                  flips = getFlips coord White currentBoard;
                  newBoard = withPlacement currentBoard moveKey White flips
              in g\<lparr>board := newBoard,
                   scores := calculateScores newBoard,
                   lastMove := Some moveKey,
                   currentPlayer := Black,
                   cpuThinking := False\<rparr>)))"

text \<open>
  The callbacks that wait for their timer belong to the state of the program. \<open>shown\<close>
  is the state of the component; \<open>timers\<close> lists the waiting callbacks in the order they
  were started, each by the board and the difficulty its closure keeps. The source
  clears no timer.
\<close>

record cpuWorld =
  shown :: cpuGame
  timers :: "(board \<times> difficulty) list"

text \<open>
  \<open>executeCPUMove\<close> reads the state of the render it was made in; the effect below calls
  it in that same render.
\<close>

definition executeCPUMove :: "cpuWorld \<Rightarrow> cpuWorld" where
  "executeCPUMove w =
     (let g = shown w in
      if gameMode g \<noteq> Some CPU \<or> currentPlayer g \<noteq> White \<or> gameOver g then w
      else w\<lparr>shown := g\<lparr>cpuThinking := True\<rparr>,
             timers := timers w @ [(board g, cpuDifficulty g)]\<rparr>)"

text \<open>
  The effect that starts the computer's turn. It runs after every render in which
  \<open>gameMode\<close>, \<open>currentPlayer\<close>, \<open>gameOver\<close>, \<open>validMoves\<close> or \<open>executeCPUMove\<close> changed.
\<close>

definition cpuTurnEffect :: "cpuWorld \<Rightarrow> cpuWorld" where
  "cpuTurnEffect w =
     (let g = shown w in
      if gameMode g = Some CPU \<and> currentPlayer g = White \<and> \<not> gameOver g
         \<and> length (validMoves g) > 0
      then executeCPUMove w else w)"

text \<open>
  A timer runs out: the callback at index \<open>i\<close> of the waiting ones runs on the state
  shown at that time and is gone afterwards. The delays are drawn at random, so the
  waiting callbacks may run in any order.
\<close>

definition timerFires :: "nat \<Rightarrow> (nat \<Rightarrow> real) \<Rightarrow> cpuWorld \<Rightarrow> cpuWorld" where
  "timerFires i rnd w =
     (if i < length (timers w) then
        (case timers w ! i of
           (capturedBoard, capturedDifficulty) \<Rightarrow>
             \<lparr>shown = cpuTimeoutCallback rnd capturedBoard capturedDifficulty (shown w),
              timers = take i (timers w) @ drop (Suc i) (timers w)\<rparr>)
      else w)"

section \<open>Two sample games\<close>

text \<open>
  The state that waits for \<open>player\<close> to move on board \<open>b\<close>: the effect has stored the
  legal moves, the game is not over, and the scores are those of the board.
\<close>

definition awaiting :: "board \<Rightarrow> player \<Rightarrow> game" where
  "awaiting b player =
     \<lparr>board = b, currentPlayer = player, validMoves = calculateValidMoves player b,
      gameOver = False, scores = calculateScores b\<rparr>"

text \<open>
  Two games from the opening, black and white moving in turn; each board is the one
  before it with the played key and the keys that move flips. After the eighth move of
  the first game black is to move and has no legal move, while white has some. After the
  ninth move of the second game there is no white piece left and nobody can move.
  \<open>passState\<close> and \<open>endState\<close> are the states \<open>handleCellClick\<close> leaves with the last
  move of each game, before the effect has run.
\<close>

definition passBoard1 :: board where
  "passBoard1 = withPlacement createInitialBoard (- 2, 1, 1) Black
     [(- 1, 1, 0)]"

definition passBoard2 :: board where
  "passBoard2 = withPlacement passBoard1 (- 3, 2, 1) White
     [(- 2, 1, 1), (- 1, 0, 1)]"

definition passBoard3 :: board where
  "passBoard3 = withPlacement passBoard2 (1, 1, - 2) Black
     [(1, 0, - 1)]"

definition passBoard4 :: board where
  "passBoard4 = withPlacement passBoard3 (2, - 1, - 1) White
     [(1, - 1, 0)]"

definition passBoard5 :: board where
  "passBoard5 = withPlacement passBoard4 (1, - 2, 1) Black
     [(1, - 1, 0)]"

definition passBoard6 :: board where
  "passBoard6 = withPlacement passBoard5 (- 1, 2, - 1) White
     [(0, 1, - 1), (1, 0, - 1), (- 1, 1, 0)]"

definition passBoard7 :: board where
  "passBoard7 = withPlacement passBoard6 (- 4, 3, 1) Black
     [(- 3, 2, 1), (- 2, 1, 1), (- 1, 0, 1), (0, - 1, 1)]"

definition passBoard8 :: board where
  "passBoard8 = withPlacement passBoard7 (- 1, - 1, 2) White
     [(0, - 1, 1), (1, - 1, 0), (- 1, 0, 1)]"

definition endBoard1 :: board where
  "endBoard1 = withPlacement createInitialBoard (0, - 2, 2) Black
     [(0, - 1, 1), (0, 0, 0)]"

definition endBoard2 :: board where
  "endBoard2 = withPlacement endBoard1 (- 1, 2, - 1) White
     [(0, 1, - 1)]"

definition endBoard3 :: board where
  "endBoard3 = withPlacement endBoard2 (2, 0, - 2) Black
     [(1, 0, - 1)]"

definition endBoard4 :: board where
  "endBoard4 = withPlacement endBoard3 (2, - 1, - 1) White
     [(1, 0, - 1)]"

definition endBoard5 :: board where
  "endBoard5 = withPlacement endBoard4 (- 1, 3, - 2) Black
     [(- 1, 2, - 1), (- 1, 1, 0)]"

definition endBoard6 :: board where
  "endBoard6 = withPlacement endBoard5 (1, - 2, 1) White
     [(1, - 1, 0)]"

definition endBoard7 :: board where
  "endBoard7 = withPlacement endBoard6 (2, - 2, 0) Black
     [(2, - 1, - 1), (1, - 1, 0), (1, - 2, 1)]"

definition endBoard8 :: board where
  "endBoard8 = withPlacement endBoard7 (- 2, 3, - 1) White
     [(- 1, 2, - 1)]"

definition endBoard9 :: board where
  "endBoard9 = withPlacement endBoard8 (- 3, 4, - 1) Black
     [(- 2, 3, - 1), (- 1, 2, - 1), (0, 1, - 1), (1, 0, - 1)]"

definition passState :: game where
  "passState =
     \<lparr>board = passBoard8, currentPlayer = Black,
      validMoves = calculateValidMoves White passBoard7,
      gameOver = False, scores = calculateScores passBoard8\<rparr>"

definition endState :: game where
  "endState =
     \<lparr>board = endBoard9, currentPlayer = White,
      validMoves = calculateValidMoves Black endBoard8,
      gameOver = False, scores = calculateScores endBoard9\<rparr>"

text \<open>
  A game against the computer that follows the first sample game. Black clicks
  \<open>(-2, 1, 1)\<close>. The effect that starts the computer's turn runs in the render after
  the click and again in the render in which white's legal moves are stored, so two
  callbacks wait, both with the board \<open>passBoard1\<close>. The first one runs and white plays
  \<open>(-3, 2, 1)\<close>; black answers with \<open>(1, 1, -2)\<close>, which starts two callbacks for the
  new board. \<open>staleWorld\<close> is the program at that moment: the second callback of white's
  first turn is still waiting.
\<close>

definition staleWorld :: cpuWorld where
  "staleWorld =
     \<lparr>shown =
        \<lparr>board = passBoard3, currentPlayer = White,
         validMoves = calculateValidMoves White passBoard3,
         gameOver = False, scores = calculateScores passBoard3,
         gameMode = Some CPU, cpuDifficulty = HARD, cpuThinking = True,
         lastMove = Some (1, 1, - 2)\<rparr>,
      timers = [(passBoard1, HARD), (passBoard3, HARD), (passBoard3, HARD)]\<rparr>"

section \<open>The chain in one direction\<close>

lemma stepsFrom_0 [simp]: "stepsFrom c d 0 = c"
  by (simp add: stepsFrom_def)

lemma stepsFrom_Suc [simp]: "stepsFrom c d (Suc n) = cubeAdd (stepsFrom c d n) d"
  by (simp add: stepsFrom_def)


lemma walkCell_components:
  "q (walkCell c d i) = q c + (int i + 1) * q d
   \<and> r (walkCell c d i) = r c + (int i + 1) * r d
   \<and> s (walkCell c d i) = s c + (int i + 1) * s d"
  by (induction i) (simp_all add: walkCell_def cubeAdd_def algebra_simps)

lemma not_player_iff: "piece \<noteq> player \<longleftrightarrow> piece = opponentOf player"
  by (cases piece; cases player) (simp_all add: opponentOf_def)

lemma directions_nonzero: "d \<in> set directions \<Longrightarrow> d \<noteq> zeroCube"
  by (auto simp: directions_def zeroCube_def)

lemma findFlipsWalk_prefix:
  assumes "d \<noteq> zeroCube"
    and "\<forall>i<n. isInBounds (stepsFrom cur d i) \<and>
           DAList.lookup b (keyOf (stepsFrom cur d i)) = Some (opponentOf p)"
  shows "findFlipsWalk cur d p b flips =
         findFlipsWalk (stepsFrom cur d n) d p b (flips @ map (\<lambda>i. keyOf (stepsFrom cur d i)) [0..<n])"
  using assms(2)
proof (induction n)
  case 0
  then show ?case by simp
next
  case (Suc n)
  then have ih: "findFlipsWalk cur d p b flips =
         findFlipsWalk (stepsFrom cur d n) d p b (flips @ map (\<lambda>i. keyOf (stepsFrom cur d i)) [0..<n])"
    by simp
  from Suc.prems have here: "isInBounds (stepsFrom cur d n)"
    "DAList.lookup b (keyOf (stepsFrom cur d n)) = Some (opponentOf p)" by simp_all
  have "opponentOf p \<noteq> p" by (simp add: opponentOf_def)
  with here assms(1) have "findFlipsWalk (stepsFrom cur d n) d p b (flips @ map (\<lambda>i. keyOf (stepsFrom cur d i)) [0..<n])
     = findFlipsWalk (stepsFrom cur d (Suc n)) d p b (flips @ map (\<lambda>i. keyOf (stepsFrom cur d i)) [0..<Suc n])"
    by (subst findFlipsWalk.simps) simp
  with ih show ?case by simp
qed

lemma towards_stepsFrom: "d \<noteq> zeroCube \<Longrightarrow> towards d c + int n \<le> towards d (stepsFrom c d n)"
proof (induction n)
  case 0
  then show ?case by simp
next
  case (Suc n)
  then show ?case using towards_step [of d "stepsFrom c d n"] by simp
qed

lemma stepsFrom_leaves:
  assumes "d \<noteq> zeroCube" "isInBounds c"
  shows "\<not> isInBounds (stepsFrom c d 25)"
proof
  assume "isInBounds (stepsFrom c d 25)"
  then have "towards d (stepsFrom c d 25) \<le> 12" by (rule towards_bound)
  moreover have "towards d c + 25 \<le> towards d (stepsFrom c d 25)"
    using towards_stepsFrom [OF assms(1), of c 25] by simp
  moreover have "- 12 \<le> towards d c"
  proof -
    have b: "- 4 \<le> sgn x * y" if "\<bar>y\<bar> \<le> 4" for x y :: int
      using that by (cases "x = 0"; cases "x < 0") (auto simp: sgn_if)
    from assms(2) have "- 4 \<le> sgn (q d) * q c" "- 4 \<le> sgn (r d) * r c" "- 4 \<le> sgn (s d) * s c"
      by (simp_all add: isInBounds_def BOARD_RADIUS_def b)
    then show ?thesis by (simp add: towards_def)
  qed
  ultimately show False by simp
qed


lemma findFlipsWalk_stop:
  assumes "d \<noteq> zeroCube"
  shows "findFlipsWalk cur d p b flips =
     (if \<not> isInBounds cur then []
      else case DAList.lookup b (keyOf cur) of
             None \<Rightarrow> []
           | Some piece \<Rightarrow>
               if piece = p then flips
               else findFlipsWalk (cubeAdd cur d) d p b (flips @ [keyOf cur]))"
  using assms by (subst findFlipsWalk.simps) (simp split: option.split)

lemma run_ends:
  assumes dir: "direction \<in> set directions"
  shows "\<exists>n. (\<forall>i<n. isInBounds (walkCell coord direction i) \<and>
             DAList.lookup b (keyOf (walkCell coord direction i)) = Some (opponentOf player)) \<and>
           \<not> (isInBounds (walkCell coord direction n) \<and>
             DAList.lookup b (keyOf (walkCell coord direction n)) = Some (opponentOf player))"
proof -
  let ?P = "\<lambda>i. isInBounds (walkCell coord direction i) \<and>
             DAList.lookup b (keyOf (walkCell coord direction i)) = Some (opponentOf player)"
  have nz: "direction \<noteq> zeroCube" using dir by (rule directions_nonzero)
  have ex: "\<exists>n. \<not> ?P n"
  proof (cases "isInBounds (cubeAdd coord direction)")
    case True
    then have "\<not> isInBounds (walkCell coord direction 25)"
      unfolding walkCell_def by (rule stepsFrom_leaves [OF nz])
    then show ?thesis by blast
  next
    case False
    then have "\<not> ?P 0" by (simp add: walkCell_def)
    then show ?thesis by blast
  qed
  define n where "n = (LEAST n. \<not> ?P n)"
  have "\<not> ?P n" unfolding n_def using ex by (rule LeastI_ex)
  moreover have "\<forall>i<n. ?P i"
  proof (intro allI impI)
    fix i assume "i < n"
    then show "?P i" unfolding n_def using not_less_Least by blast
  qed
  ultimately show ?thesis by blast
qed

text \<open>
  C1. The chain in one direction. The walk starts at \<open>coord + direction\<close> and goes
  on in steps of \<open>direction\<close> (\<open>walkCell_components\<close>). Let its first \<open>n\<close> cells
  be on the board and hold the opponent's pieces, and let the next cell end that run.
  Then the result is empty when that cell is off the board, empty when it is an empty
  cell, and the keys of the \<open>n\<close> opponent cells, in walking order, when it holds the
  player's own piece (no key when \<open>n = 0\<close>). Every walk has such an \<open>n\<close>.
\<close>

theorem findFlipsInDirection_chain:
  assumes dir: "direction \<in> set directions"
    and run: "\<forall>i<n. isInBounds (walkCell coord direction i) \<and>
           DAList.lookup b (keyOf (walkCell coord direction i)) = Some (opponentOf player)"
    and stop: "\<not> (isInBounds (walkCell coord direction n) \<and>
           DAList.lookup b (keyOf (walkCell coord direction n)) = Some (opponentOf player))"
  shows "findFlipsInDirection coord direction player b =
           (if \<not> isInBounds (walkCell coord direction n) then []
            else if DAList.lookup b (keyOf (walkCell coord direction n)) = None then []
            else map (\<lambda>i. keyOf (walkCell coord direction i)) [0..<n])
         \<and> (isInBounds (walkCell coord direction n) \<and>
              DAList.lookup b (keyOf (walkCell coord direction n)) \<noteq> None \<longrightarrow>
              DAList.lookup b (keyOf (walkCell coord direction n)) = Some player)
         \<and> (\<exists>m. (\<forall>i<m. isInBounds (walkCell coord direction i) \<and>
                    DAList.lookup b (keyOf (walkCell coord direction i)) = Some (opponentOf player)) \<and>
                 \<not> (isInBounds (walkCell coord direction m) \<and>
                    DAList.lookup b (keyOf (walkCell coord direction m)) = Some (opponentOf player)))"
proof (intro conjI)
  have nz: "direction \<noteq> zeroCube" using dir by (rule directions_nonzero)
  have "findFlipsInDirection coord direction player b =
        findFlipsWalk (walkCell coord direction n) direction player b
          (map (\<lambda>i. keyOf (walkCell coord direction i)) [0..<n])"
    unfolding findFlipsInDirection_def
    using findFlipsWalk_prefix [OF nz, of n "cubeAdd coord direction" b player "[]"] run
    by (simp add: walkCell_def)
  also have "\<dots> = (if \<not> isInBounds (walkCell coord direction n) then []
            else if DAList.lookup b (keyOf (walkCell coord direction n)) = None then []
            else map (\<lambda>i. keyOf (walkCell coord direction i)) [0..<n])"
    using stop by (subst findFlipsWalk_stop [OF nz]) (auto simp: not_player_iff split: option.split)
  finally show "findFlipsInDirection coord direction player b =
           (if \<not> isInBounds (walkCell coord direction n) then []
            else if DAList.lookup b (keyOf (walkCell coord direction n)) = None then []
            else map (\<lambda>i. keyOf (walkCell coord direction i)) [0..<n])" .
next
  show "isInBounds (walkCell coord direction n) \<and>
              DAList.lookup b (keyOf (walkCell coord direction n)) \<noteq> None \<longrightarrow>
              DAList.lookup b (keyOf (walkCell coord direction n)) = Some player"
  proof (intro impI, elim conjE)
    assume inb: "isInBounds (walkCell coord direction n)"
      and occ: "DAList.lookup b (keyOf (walkCell coord direction n)) \<noteq> None"
    then obtain piece where piece: "DAList.lookup b (keyOf (walkCell coord direction n)) = Some piece"
      by blast
    with stop inb have "piece \<noteq> opponentOf player" by auto
    then have "piece = player" using not_player_iff [of piece player] by blast
    with piece show "DAList.lookup b (keyOf (walkCell coord direction n)) = Some player" by simp
  qed
next
  show "\<exists>m. (\<forall>i<m. isInBounds (walkCell coord direction i) \<and>
                    DAList.lookup b (keyOf (walkCell coord direction i)) = Some (opponentOf player)) \<and>
                 \<not> (isInBounds (walkCell coord direction m) \<and>
                    DAList.lookup b (keyOf (walkCell coord direction m)) = Some (opponentOf player))"
    using dir by (rule run_ends)
qed

theorem findFlipsInDirection_chain_witness:
  "\<lparr>q = - 1, r = 0, s = 1\<rparr> \<in> set directions \<and>
   findFlipsInDirection \<lparr>q = 2, r = 0, s = - 2\<rparr> \<lparr>q = - 1, r = 0, s = 1\<rparr> Black createInitialBoard
     = [(1, 0, - 1), (0, 0, 0)]"
proof -
  have dir: "\<lparr>q = - 1, r = 0, s = 1\<rparr> \<in> set directions"
    by (simp add: directions_def)
  have run: "\<forall>i<Suc (Suc 0). isInBounds (walkCell \<lparr>q = 2, r = 0, s = - 2\<rparr> \<lparr>q = - 1, r = 0, s = 1\<rparr> i) \<and>
           DAList.lookup createInitialBoard (keyOf (walkCell \<lparr>q = 2, r = 0, s = - 2\<rparr> \<lparr>q = - 1, r = 0, s = 1\<rparr> i))
             = Some (opponentOf Black)"
    by (simp add: All_less_Suc walkCell_def cubeAdd_def isInBounds_def BOARD_RADIUS_def keyOf_def
        createInitialBoard_def opponentOf_def)
  have stop: "\<not> (isInBounds (walkCell \<lparr>q = 2, r = 0, s = - 2\<rparr> \<lparr>q = - 1, r = 0, s = 1\<rparr> (Suc (Suc 0))) \<and>
           DAList.lookup createInitialBoard
             (keyOf (walkCell \<lparr>q = 2, r = 0, s = - 2\<rparr> \<lparr>q = - 1, r = 0, s = 1\<rparr> (Suc (Suc 0))))
             = Some (opponentOf Black))"
    by (simp add: walkCell_def cubeAdd_def isInBounds_def BOARD_RADIUS_def keyOf_def
        createInitialBoard_def opponentOf_def)
  show ?thesis
    using dir findFlipsInDirection_chain [OF dir run stop]
    by (simp add: walkCell_def cubeAdd_def isInBounds_def BOARD_RADIUS_def keyOf_def
        createInitialBoard_def upt_rec)
qed

section \<open>What a move flips\<close>

lemma findFlipsWalk_opponent:
  "\<forall>f\<in>set flips. DAList.lookup b f = Some (opponentOf p) \<Longrightarrow>
   \<forall>f\<in>set (findFlipsWalk cur d p b flips). DAList.lookup b f = Some (opponentOf p)"
proof (induction cur d p b flips rule: findFlipsWalk.induct)
  case (1 current direction player currentBoard flips)
  show ?case
  proof (cases "isInBounds current")
    case False
    then show ?thesis by (subst findFlipsWalk.simps) simp
  next
    case inb: True
    show ?thesis
    proof (cases "DAList.lookup currentBoard (keyOf current)")
      case None
      with inb show ?thesis by (subst findFlipsWalk.simps) simp
    next
      case (Some piece)
      show ?thesis
      proof (cases "piece = player \<or> direction = zeroCube")
        case True
        with inb Some "1.prems" show ?thesis
          by (subst findFlipsWalk.simps) auto
      next
        case False
        then have other: "piece = opponentOf player"
          using not_player_iff [of piece player] by blast
        have "\<forall>f\<in>set (flips @ [keyOf current]).
                DAList.lookup currentBoard f = Some (opponentOf player)"
          using "1.prems" Some other by simp
        with "1.IH" [OF inb Some] False
        have "\<forall>f\<in>set (findFlipsWalk (cubeAdd current direction) direction player currentBoard
                 (flips @ [keyOf current])). DAList.lookup currentBoard f = Some (opponentOf player)"
          by blast
        with inb Some False show ?thesis
          by (subst findFlipsWalk.simps) simp
      qed
    qed
  qed
qed

lemma findFlipsInDirection_opponent:
  "f \<in> set (findFlipsInDirection coord d p b) \<Longrightarrow> DAList.lookup b f = Some (opponentOf p)"
  unfolding findFlipsInDirection_def
  using findFlipsWalk_opponent [of "[]" b p "cubeAdd coord d" d] by simp

lemma getFlipsLoop_concat:
  "getFlipsLoop coord p b dirs acc =
   acc @ concat (map (\<lambda>d. findFlipsInDirection coord d p b) dirs)"
  by (induction dirs arbitrary: acc) (simp_all add: Let_def)

lemma getFlips_opponent:
  "f \<in> set (getFlips coord p b) \<Longrightarrow> DAList.lookup b f = Some (opponentOf p)"
  by (auto simp: getFlips_def getFlipsLoop_concat findFlipsInDirection_opponent
      split: if_splits)

lemma getFlips_occupied:
  "DAList.lookup b (keyOf coord) \<noteq> None \<Longrightarrow> getFlips coord p b = []"
  by (simp add: getFlips_def)

lemma getFlips_nonempty_free:
  "getFlips coord p b \<noteq> [] \<Longrightarrow> DAList.lookup b (keyOf coord) = None"
  by (auto simp: getFlips_def split: if_splits)

section \<open>The legal moves\<close>

lemma keyOf_coordOf [simp]: "keyOf (coordOf k) = k"
  by (cases k) (simp add: keyOf_def coordOf_def)

lemma coordOf_keyOf [simp]: "coordOf (keyOf c) = c"
  by (simp add: keyOf_def coordOf_def)

lemma calculateValidMoves_cells:
  "k \<in> set (calculateValidMoves p b) \<longleftrightarrow>
   (\<exists>qv\<in>{- BOARD_RADIUS .. BOARD_RADIUS}. \<exists>rv\<in>{- BOARD_RADIUS .. BOARD_RADIUS}.
      isInBounds \<lparr>q = qv, r = rv, s = - qv - rv\<rparr> \<and>
      getFlips \<lparr>q = qv, r = rv, s = - qv - rv\<rparr> p b \<noteq> [] \<and>
      k = keyOf \<lparr>q = qv, r = rv, s = - qv - rv\<rparr>)"
proof -
  define G where "G = (\<lambda>qv rv.
        (let sv = - qv - rv; coord = \<lparr>q = qv, r = rv, s = sv\<rparr> in
         if \<not> isInBounds coord then []
         else if length (getFlips coord p b) > 0 then [keyOf coord]
         else []))"
  have G: "k \<in> set (G qv rv) \<longleftrightarrow>
      isInBounds \<lparr>q = qv, r = rv, s = - qv - rv\<rparr> \<and>
      getFlips \<lparr>q = qv, r = rv, s = - qv - rv\<rparr> p b \<noteq> [] \<and>
      k = keyOf \<lparr>q = qv, r = rv, s = - qv - rv\<rparr>" for qv rv
    by (auto simp: G_def Let_def)
  have "calculateValidMoves p b =
        concat (map (\<lambda>qv. concat (map (G qv) [- BOARD_RADIUS .. BOARD_RADIUS]))
          [- BOARD_RADIUS .. BOARD_RADIUS])"
    by (simp only: calculateValidMoves_def G_def)
  then have "k \<in> set (calculateValidMoves p b) \<longleftrightarrow>
     (\<exists>qv\<in>{- BOARD_RADIUS .. BOARD_RADIUS}. \<exists>rv\<in>{- BOARD_RADIUS .. BOARD_RADIUS}. k \<in> set (G qv rv))"
    by simp
  then show ?thesis by (simp only: G)
qed

lemma mem_calculateValidMoves:
  "k \<in> set (calculateValidMoves p b) \<longleftrightarrow> onGrid (coordOf k) \<and> getFlips (coordOf k) p b \<noteq> []"
proof
  assume "k \<in> set (calculateValidMoves p b)"
  then obtain qv rv where "isInBounds \<lparr>q = qv, r = rv, s = - qv - rv\<rparr>"
    and "getFlips \<lparr>q = qv, r = rv, s = - qv - rv\<rparr> p b \<noteq> []"
    and "k = keyOf \<lparr>q = qv, r = rv, s = - qv - rv\<rparr>"
    unfolding calculateValidMoves_cells by blast
  then show "onGrid (coordOf k) \<and> getFlips (coordOf k) p b \<noteq> []"
    by (simp add: onGrid_def)
next
  assume a: "onGrid (coordOf k) \<and> getFlips (coordOf k) p b \<noteq> []"
  define c where "c = coordOf k"
  have k: "k = keyOf c" by (simp add: c_def)
  from a have sum: "s c = - q c - r c" and inb: "isInBounds c" and fl: "getFlips c p b \<noteq> []"
    by (auto simp: onGrid_def c_def)
  have ceq: "\<lparr>q = q c, r = r c, s = - q c - r c\<rparr> = c" using sum by simp
  from inb have "q c \<in> {- BOARD_RADIUS .. BOARD_RADIUS}" "r c \<in> {- BOARD_RADIUS .. BOARD_RADIUS}"
    by (auto simp: isInBounds_def)
  moreover have "isInBounds \<lparr>q = q c, r = r c, s = - q c - r c\<rparr> \<and>
      getFlips \<lparr>q = q c, r = r c, s = - q c - r c\<rparr> p b \<noteq> [] \<and>
      k = keyOf \<lparr>q = q c, r = r c, s = - q c - r c\<rparr>"
    using inb fl k by (simp only: ceq) simp
  ultimately show "k \<in> set (calculateValidMoves p b)"
    unfolding calculateValidMoves_cells by blast
qed

lemma distinct_concat_map:
  assumes "distinct xs"
    and "\<And>x. x \<in> set xs \<Longrightarrow> distinct (f x)"
    and "\<And>x y. x \<in> set xs \<Longrightarrow> y \<in> set xs \<Longrightarrow> x \<noteq> y \<Longrightarrow> set (f x) \<inter> set (f y) = {}"
  shows "distinct (concat (map f xs))"
  using assms
proof (induction xs)
  case Nil
  then show ?case by simp
next
  case (Cons x xs)
  have "distinct (concat (map f xs))"
    using Cons.prems by (intro Cons.IH) auto
  moreover have "distinct (f x)" using Cons.prems(2) by simp
  moreover have "set (f x) \<inter> set (f y) = {}" if "y \<in> set xs" for y
    using that Cons.prems(1) Cons.prems(3) [of x y] by auto
  ultimately show ?case by auto
qed

lemma calculateValidMoves_distinct: "distinct (calculateValidMoves p b)"
proof -
  define G where "G = (\<lambda>qv rv.
        (let sv = - qv - rv; coord = \<lparr>q = qv, r = rv, s = sv\<rparr> in
         if \<not> isInBounds coord then []
         else if length (getFlips coord p b) > 0 then [keyOf coord]
         else []))"
  have G: "k \<in> set (G qv rv) \<Longrightarrow> k = (qv, rv, - qv - rv)" for k qv rv
    by (auto simp: G_def Let_def keyOf_def split: if_splits)
  have dG: "distinct (G qv rv)" for qv rv
    by (simp add: G_def Let_def)
  have inner: "distinct (concat (map (G qv) [- BOARD_RADIUS .. BOARD_RADIUS]))" for qv
  proof (rule distinct_concat_map)
    show "distinct [- BOARD_RADIUS .. BOARD_RADIUS]" by simp
    show "distinct (G qv x)" for x by (rule dG)
    show "set (G qv x) \<inter> set (G qv y) = {}" if "x \<noteq> y" for x y
      using that G [of _ qv x] G [of _ qv y] by fastforce
  qed
  have first: "k \<in> set (concat (map (G qv) [- BOARD_RADIUS .. BOARD_RADIUS])) \<Longrightarrow> fst k = qv"
    for k qv
    using G by fastforce
  have "distinct (concat (map (\<lambda>qv. concat (map (G qv) [- BOARD_RADIUS .. BOARD_RADIUS]))
          [- BOARD_RADIUS .. BOARD_RADIUS]))"
  proof (rule distinct_concat_map)
    show "distinct [- BOARD_RADIUS .. BOARD_RADIUS]" by simp
    show "distinct (concat (map (G x) [- BOARD_RADIUS .. BOARD_RADIUS]))" for x by (rule inner)
    show "set (concat (map (G x) [- BOARD_RADIUS .. BOARD_RADIUS]))
          \<inter> set (concat (map (G y) [- BOARD_RADIUS .. BOARD_RADIUS])) = {}" if "x \<noteq> y" for x y
      using that first [of _ x] first [of _ y] by blast
  qed
  then show ?thesis by (simp only: calculateValidMoves_def G_def)
qed

text \<open>
  C2. For a cell \<open>c\<close> of the board, its key is among the legal moves exactly when
  \<open>getFlips\<close> finds something to flip; and on an occupied coordinate \<open>getFlips\<close> is
  empty at once, so that coordinate is never legal.
\<close>

theorem legal_iff_flips:
  "(onGrid c \<longrightarrow>
      (keyOf c \<in> set (calculateValidMoves player b) \<longleftrightarrow> getFlips c player b \<noteq> []))
   \<and> (DAList.lookup b (keyOf c) \<noteq> None \<longrightarrow>
        getFlips c player b = [] \<and> keyOf c \<notin> set (calculateValidMoves player b))"
  by (simp add: mem_calculateValidMoves getFlips_occupied)

lemma getFlips_sample:
  "getFlips \<lparr>q = 2, r = 0, s = - 2\<rparr> Black createInitialBoard = [(1, 0, - 1), (0, 0, 0)]"
  by code_simp

theorem legal_iff_flips_witness:
  "onGrid \<lparr>q = 2, r = 0, s = - 2\<rparr>
   \<and> getFlips \<lparr>q = 2, r = 0, s = - 2\<rparr> Black createInitialBoard = [(1, 0, - 1), (0, 0, 0)]
   \<and> keyOf \<lparr>q = 2, r = 0, s = - 2\<rparr> \<in> set (calculateValidMoves Black createInitialBoard)
   \<and> DAList.lookup createInitialBoard (keyOf \<lparr>q = 0, r = 0, s = 0\<rparr>) \<noteq> None
   \<and> getFlips \<lparr>q = 0, r = 0, s = 0\<rparr> Black createInitialBoard = []
   \<and> keyOf \<lparr>q = 0, r = 0, s = 0\<rparr> \<notin> set (calculateValidMoves Black createInitialBoard)"
proof -
  have g: "onGrid \<lparr>q = 2, r = 0, s = - 2\<rparr>"
    by (simp add: onGrid_def isInBounds_def BOARD_RADIUS_def)
  have occ: "DAList.lookup createInitialBoard (keyOf \<lparr>q = 0, r = 0, s = 0\<rparr>) \<noteq> None"
    by (simp add: createInitialBoard_def keyOf_def)
  show ?thesis
    using g occ getFlips_sample
      legal_iff_flips [of "\<lparr>q = 2, r = 0, s = - 2\<rparr>" Black createInitialBoard]
      legal_iff_flips [of "\<lparr>q = 0, r = 0, s = 0\<rparr>" Black createInitialBoard]
    by simp
qed

section \<open>Counting pieces\<close>

lemma count_update_same:
  "length (filter (\<lambda>e. snd e = v) al) \<le> length (filter (\<lambda>e. snd e = v) (AList.update k v al))"
  by (induction al) auto

lemma count_update_other:
  "w \<noteq> v \<Longrightarrow>
   length (filter (\<lambda>e. snd e = w) (AList.update k v al)) \<le> length (filter (\<lambda>e. snd e = w) al)"
  by (induction al) auto

lemma pieceCount_update_same: "pieceCount p b \<le> pieceCount p (DAList.update k p b)"
  by (simp add: pieceCount_def update.rep_eq count_update_same)

lemma pieceCount_update_other:
  "w \<noteq> p \<Longrightarrow> pieceCount w (DAList.update k p b) \<le> pieceCount w b"
  by (simp add: pieceCount_def update.rep_eq count_update_other)

lemma pieceCount_fold_same:
  "pieceCount p b \<le> pieceCount p (fold (\<lambda>f nb. DAList.update f p nb) fs b)"
proof (induction fs arbitrary: b)
  case Nil
  then show ?case by simp
next
  case (Cons f fs)
  have "pieceCount p b \<le> pieceCount p (DAList.update f p b)" by (rule pieceCount_update_same)
  also have "\<dots> \<le> pieceCount p (fold (\<lambda>f nb. DAList.update f p nb) fs (DAList.update f p b))"
    by (rule Cons.IH)
  finally show ?case by simp
qed

lemma pieceCount_fold_other:
  assumes "w \<noteq> p"
  shows "pieceCount w (fold (\<lambda>f nb. DAList.update f p nb) fs b) \<le> pieceCount w b"
proof (induction fs arbitrary: b)
  case Nil
  then show ?case by simp
next
  case (Cons f fs)
  have "pieceCount w (fold (\<lambda>f nb. DAList.update f p nb) fs (DAList.update f p b))
        \<le> pieceCount w (DAList.update f p b)"
    by (rule Cons.IH)
  also have "\<dots> \<le> pieceCount w b" using assms by (rule pieceCount_update_other)
  finally show ?case by simp
qed

lemma opponentOf_neq [simp]: "opponentOf p \<noteq> p"
  by (simp add: opponentOf_def)

lemma calculateScores_fold:
  "fold (\<lambda>entry sc.
             if snd entry = Black then sc\<lparr>black := black sc + 1\<rparr>
             else sc\<lparr>white := white sc + 1\<rparr>) es sc0
   = \<lparr>black = black sc0 + length (filter (\<lambda>e. snd e = Black) es),
      white = white sc0 + length (filter (\<lambda>e. snd e = White) es)\<rparr>"
proof (induction es arbitrary: sc0)
  case Nil
  then show ?case by simp
next
  case (Cons e es)
  show ?case
  proof (cases "snd e")
    case Black
    then show ?thesis by (simp add: Cons.IH)
  next
    case White
    then show ?thesis by (simp add: Cons.IH)
  qed
qed

lemma calculateScores_pieceCount:
  "calculateScores b = \<lparr>black = pieceCount Black b, white = pieceCount White b\<rparr>"
  by (simp add: calculateScores_def calculateScores_fold pieceCount_def)

lemma legal_sample:
  "(2, 0, - 2) \<in> set (calculateValidMoves Black createInitialBoard)"
  using getFlips_sample
  by (simp add: mem_calculateValidMoves coordOf_def onGrid_def isInBounds_def BOARD_RADIUS_def)

section \<open>The occupied cells\<close>

lemma lookup_None_iff: "DAList.lookup b k = None \<longleftrightarrow> k \<notin> fst ` set (DAList.impl_of b)"
  by (simp add: lookup.rep_eq map_of_eq_None_iff)

lemma length_AList_update:
  "length (AList.update k v al) = (if k \<in> fst ` set al then length al else Suc (length al))"
  by (induction al) auto

lemma occupied_update:
  "occupied (DAList.update k v b) =
     (if DAList.lookup b k = None then Suc (occupied b) else occupied b)"
  by (simp add: occupied_def update.rep_eq length_AList_update lookup_None_iff)

lemma lookup_update_None_iff:
  "DAList.lookup (DAList.update k v b) k' = None \<longleftrightarrow> k' \<noteq> k \<and> DAList.lookup b k' = None"
  by (cases "k' = k") simp_all

lemma lookup_fold_None_iff:
  "DAList.lookup (fold (\<lambda>f nb. DAList.update f p nb) fs b) k' = None
   \<longleftrightarrow> k' \<notin> set fs \<and> DAList.lookup b k' = None"
  by (induction fs arbitrary: b) (auto simp: lookup_update_None_iff)

lemma lookup_withPlacement_None_iff:
  "DAList.lookup (withPlacement b k p fs) k' = None
   \<longleftrightarrow> k' \<noteq> k \<and> k' \<notin> set fs \<and> DAList.lookup b k' = None"
  by (auto simp: withPlacement_def lookup_fold_None_iff lookup_update_None_iff)

lemma occupied_fold_present:
  "\<forall>f\<in>set fs. DAList.lookup b f \<noteq> None \<Longrightarrow>
   occupied (fold (\<lambda>f nb. DAList.update f p nb) fs b) = occupied b"
proof (induction fs arbitrary: b)
  case Nil
  then show ?case by simp
next
  case (Cons f fs)
  have "\<forall>f'\<in>set fs. DAList.lookup (DAList.update f p b) f' \<noteq> None"
    using Cons.prems by (simp add: lookup_update_None_iff)
  then have "occupied (fold (\<lambda>f nb. DAList.update f p nb) fs (DAList.update f p b))
             = occupied (DAList.update f p b)"
    by (rule Cons.IH)
  also have "\<dots> = occupied b" using Cons.prems by (simp add: occupied_update)
  finally show ?case by simp
qed

lemma legal_move_free:
  "k \<in> set (calculateValidMoves p b) \<Longrightarrow> DAList.lookup b k = None"
  using getFlips_nonempty_free [of "coordOf k" p b] by (simp add: mem_calculateValidMoves)

lemma occupied_legal_move:
  assumes "k \<in> set (calculateValidMoves p b)"
  shows "occupied (withPlacement b k p (getFlips (coordOf k) p b)) = Suc (occupied b)"
proof -
  have free: "DAList.lookup b k = None" using assms by (rule legal_move_free)
  have "\<forall>f\<in>set (getFlips (coordOf k) p b). DAList.lookup (DAList.update k p b) f \<noteq> None"
    using getFlips_opponent [of _ "coordOf k" p b] by (auto simp: lookup_update_None_iff)
  then have "occupied (withPlacement b k p (getFlips (coordOf k) p b))
             = occupied (DAList.update k p b)"
    unfolding withPlacement_def by (rule occupied_fold_present)
  with free show ?thesis by (simp add: occupied_update)
qed

lemma occupied_createInitialBoard: "occupied createInitialBoard = 7"
proof -
  have "occupied DAList.empty = 0" by (simp add: occupied_def empty.rep_eq)
  then show ?thesis by (simp add: createInitialBoard_def occupied_update)
qed

lemma boardAfter_occupied: "boardAfter n b \<Longrightarrow> occupied b = 7 + n"
proof (induction rule: boardAfter.induct)
  case first_board
  then show ?case by (simp add: occupied_createInitialBoard)
next
  case (legal_move n b k player)
  then show ?case by (simp add: occupied_legal_move)
qed

lemma boardAfter_sample:
  "boardAfter (Suc 0)
     (withPlacement createInitialBoard (2, 0, - 2) Black
        (getFlips (coordOf (2, 0, - 2)) Black createInitialBoard))"
  using boardAfter.first_board legal_sample by (rule boardAfter.legal_move)

section \<open>The keys of a reachable board\<close>

lemma createInitialBoard_keys:
  "DAList.lookup createInitialBoard k \<noteq> None \<Longrightarrow> onGrid (coordOf k)"
  by (auto simp: createInitialBoard_def lookup_update_None_iff coordOf_def onGrid_def
      isInBounds_def BOARD_RADIUS_def)

lemma boardAfter_keys:
  "boardAfter n b \<Longrightarrow> DAList.lookup b k \<noteq> None \<Longrightarrow> onGrid (coordOf k)"
proof (induction arbitrary: k rule: boardAfter.induct)
  case first_board
  then show ?case by (rule createInitialBoard_keys)
next
  case (legal_move n b m player)
  from legal_move.prems have "k = m \<or> k \<in> set (getFlips (coordOf m) player b)
      \<or> DAList.lookup b k \<noteq> None"
    by (auto simp: lookup_withPlacement_None_iff)
  then show ?case
  proof (elim disjE)
    assume "k = m"
    with legal_move.hyps(2) show ?thesis by (simp add: mem_calculateValidMoves)
  next
    assume "k \<in> set (getFlips (coordOf m) player b)"
    then have "DAList.lookup b k \<noteq> None" using getFlips_opponent by fastforce
    then show ?thesis by (rule legal_move.IH)
  next
    assume "DAList.lookup b k \<noteq> None"
    then show ?thesis by (rule legal_move.IH)
  qed
qed

lemma findFlipsWalk_empty_cell:
  "DAList.lookup b (keyOf c) = None \<Longrightarrow> findFlipsWalk c d p b flips = []"
  by (subst findFlipsWalk.simps) simp

text \<open>
  C9. On a board reached from the opening (creation or reset) by legal moves every
  key of the map is a cube coordinate within radius 4. A coordinate whose key is absent
  is an empty cell: a walk that comes to it ends with nothing to flip. The board of
  every state the component reaches is such a board (\<open>reach_boardAfter\<close> below).
\<close>

theorem reachable_keys_on_grid:
  assumes "boardAfter n b"
  shows "(\<forall>qv rv sv. DAList.lookup b (qv, rv, sv) \<noteq> None \<longrightarrow>
            qv + rv + sv = 0 \<and> max (max \<bar>qv\<bar> \<bar>rv\<bar>) \<bar>sv\<bar> \<le> 4)
         \<and> (\<forall>c d p flips. DAList.lookup b (keyOf c) = None \<longrightarrow> findFlipsWalk c d p b flips = [])"
proof (intro conjI allI impI)
  fix qv rv sv
  assume "DAList.lookup b (qv, rv, sv) \<noteq> None"
  with assms have "onGrid (coordOf (qv, rv, sv))" by (rule boardAfter_keys)
  then show "qv + rv + sv = 0" and "max (max \<bar>qv\<bar> \<bar>rv\<bar>) \<bar>sv\<bar> \<le> 4"
    by (simp_all add: onGrid_def coordOf_def isInBounds_def BOARD_RADIUS_def)
next
  fix c d p flips
  assume "DAList.lookup b (keyOf c) = None"
  then show "findFlipsWalk c d p b flips = []" by (rule findFlipsWalk_empty_cell)
qed

theorem reachable_keys_on_grid_witness:
  "boardAfter (Suc 0)
       (withPlacement createInitialBoard (2, 0, - 2) Black
          (getFlips (coordOf (2, 0, - 2)) Black createInitialBoard))
   \<and> DAList.lookup (withPlacement createInitialBoard (2, 0, - 2) Black
          (getFlips (coordOf (2, 0, - 2)) Black createInitialBoard)) (2, 0, - 2) \<noteq> None
   \<and> (2::int) + 0 + - 2 = 0 \<and> max (max \<bar>2::int\<bar> \<bar>0\<bar>) \<bar>- 2\<bar> \<le> 4"
  using boardAfter_sample reachable_keys_on_grid [OF boardAfter_sample]
  by (simp add: lookup_withPlacement_None_iff)

section \<open>The opening\<close>

lemma impl_createInitialBoard:
  "DAList.impl_of createInitialBoard =
     [((0, 0, 0), White), ((1, - 1, 0), Black), ((0, 1, - 1), Black), ((- 1, 0, 1), Black),
      ((- 1, 1, 0), White), ((1, 0, - 1), White), ((0, - 1, 1), White)]"
  by (simp add: createInitialBoard_def update.rep_eq empty.rep_eq)

lemma calculateScores_createInitialBoard:
  "calculateScores createInitialBoard = \<lparr>black = 3, white = 4\<rparr>"
  by (simp add: calculateScores_def impl_createInitialBoard)

text \<open>
  C4. Creation and reset give the same fixed opening: the centre is white, its six
  neighbours (in the order of \<open>directions\<close>) alternate black and white, three of each,
  there is nothing else on the board, the scores are 3 for black and 4 for white, which
  is what the board counts to, black moves first, and the game is not over.
\<close>

theorem opening_configuration:
  "board initialGame = createInitialBoard
   \<and> currentPlayer initialGame = Black
   \<and> scores initialGame = \<lparr>black = 3, white = 4\<rparr>
   \<and> \<not> gameOver initialGame
   \<and> board (resetGame g) = createInitialBoard
   \<and> currentPlayer (resetGame g) = Black
   \<and> scores (resetGame g) = \<lparr>black = 3, white = 4\<rparr>
   \<and> \<not> gameOver (resetGame g)
   \<and> DAList.lookup createInitialBoard (0, 0, 0) = Some White
   \<and> map (\<lambda>d. DAList.lookup createInitialBoard (keyOf d)) directions
       = [Some Black, Some White, Some Black, Some White, Some Black, Some White]
   \<and> occupied createInitialBoard = 7
   \<and> calculateScores createInitialBoard = \<lparr>black = 3, white = 4\<rparr>"
  by (simp add: initialGame_def resetGame_def calculateScores_createInitialBoard
      occupied_createInitialBoard)
    (simp add: createInitialBoard_def directions_def keyOf_def)

section \<open>The states the component reaches\<close>

lemma turnEffect_board [simp]: "board (turnEffect g) = board g"
  by (simp add: turnEffect_def Let_def)

lemma turnEffect_scores [simp]: "scores (turnEffect g) = scores g"
  by (simp add: turnEffect_def Let_def)

lemma turnEffect_validMoves [simp]:
  "validMoves (turnEffect g) = calculateValidMoves (currentPlayer g) (board g)"
  by (simp add: turnEffect_def Let_def)

lemma turnEffect_currentPlayer:
  "currentPlayer (turnEffect g) =
     (if calculateValidMoves (currentPlayer g) (board g) = []
         \<and> calculateValidMoves (opponentOf (currentPlayer g)) (board g) \<noteq> []
      then opponentOf (currentPlayer g) else currentPlayer g)"
  by (simp add: turnEffect_def Let_def)

lemma turnEffect_gameOver:
  "gameOver (turnEffect g) \<longleftrightarrow>
     gameOver g \<or> (calculateValidMoves (currentPlayer g) (board g) = []
         \<and> calculateValidMoves (opponentOf (currentPlayer g)) (board g) = [])"
  by (auto simp: turnEffect_def Let_def)

lemma reach_invariant:
  "reach ph g \<Longrightarrow>
     scores g = calculateScores (board g)
     \<and> (\<exists>n. boardAfter n (board g))
     \<and> (ph = Pending \<longrightarrow> \<not> gameOver g)
     \<and> (ph = Idle \<longrightarrow>
          validMoves g = calculateValidMoves (currentPlayer g) (board g)
          \<and> (gameOver g \<longleftrightarrow> validMoves g = []))"
proof (induction rule: reach.induct)
  case mount
  show ?case
    using boardAfter.first_board
    by (auto simp: initialGame_def calculateScores_createInitialBoard)
next
  case (effect_again g)
  then show ?case
    by (auto simp: turnEffect_gameOver turnEffect_currentPlayer split: if_splits)
next
  case (effect_done g)
  then show ?case
    by (auto simp: turnEffect_gameOver turnEffect_currentPlayer split: if_splits)
next
  case (click g qv rv sv)
  then obtain n where n: "boardAfter n (board g)" by blast
  from click have legal: "(qv, rv, sv) \<in> set (calculateValidMoves (currentPlayer g) (board g))"
    by simp
  have "boardAfter (Suc n) (withPlacement (board g) (qv, rv, sv) (currentPlayer g)
          (getFlips (coordOf (qv, rv, sv)) (currentPlayer g) (board g)))"
    using n legal by (rule boardAfter.legal_move)
  then have "\<exists>m. boardAfter m (board (handleCellClick qv rv sv g))"
    using click.hyps by (auto simp: handleCellClick_def Let_def coordOf_def)
  moreover have "scores (handleCellClick qv rv sv g)
      = calculateScores (board (handleCellClick qv rv sv g))"
    using click.hyps click.IH by (simp add: handleCellClick_def Let_def)
  moreover have "\<not> gameOver (handleCellClick qv rv sv g)"
    using click.hyps by (simp add: handleCellClick_def Let_def)
  ultimately show ?case by simp
next
  case (reset g)
  show ?case
    using boardAfter.first_board
    by (auto simp: resetGame_def calculateScores_createInitialBoard)
qed

lemma reach_scores: "reach ph g \<Longrightarrow> scores g = calculateScores (board g)"
  by (simp add: reach_invariant)

lemma reach_boardAfter: "reach ph g \<Longrightarrow> \<exists>n. boardAfter n (board g)"
  by (simp add: reach_invariant)

lemma reach_Idle_validMoves:
  "reach Idle g \<Longrightarrow> validMoves g = calculateValidMoves (currentPlayer g) (board g)"
  using reach_invariant [of Idle g] by simp

lemma reach_Idle_gameOver: "reach Idle g \<Longrightarrow> gameOver g \<longleftrightarrow> validMoves g = []"
  using reach_invariant [of Idle g] by simp

section \<open>The sample games are played by the component\<close>

lemma reach_awaiting_start: "reach Idle (awaiting createInitialBoard Black)"
proof -
  have ne: "calculateValidMoves Black createInitialBoard \<noteq> []"
    using legal_sample by auto
  have "turnEffect initialGame = awaiting createInitialBoard Black"
    using ne by (simp add: turnEffect_def initialGame_def awaiting_def Let_def
        calculateScores_createInitialBoard)
  moreover have "reach Idle (turnEffect initialGame)"
    using reach.mount ne
    by (intro reach.effect_done) (simp_all add: turnEffect_currentPlayer initialGame_def)
  ultimately show ?thesis by simp
qed

lemma handleCellClick_awaiting:
  assumes "(qv, rv, sv) \<in> set (calculateValidMoves p b)"
  shows "handleCellClick qv rv sv (awaiting b p) =
     \<lparr>board = withPlacement b (qv, rv, sv) p (getFlips \<lparr>q = qv, r = rv, s = sv\<rparr> p b),
      currentPlayer = opponentOf p,
      validMoves = calculateValidMoves p b,
      gameOver = False,
      scores = calculateScores
        (withPlacement b (qv, rv, sv) p (getFlips \<lparr>q = qv, r = rv, s = sv\<rparr> p b))\<rparr>"
  using assms by (simp add: handleCellClick_def awaiting_def Let_def)

lemma reach_pending_step:
  assumes idle: "reach Idle (awaiting b p)"
    and legal: "(qv, rv, sv) \<in> set (calculateValidMoves p b)"
  shows "reach Pending (handleCellClick qv rv sv (awaiting b p))"
  using idle
proof (rule reach.click)
  show "\<not> gameOver (awaiting b p)" by (simp add: awaiting_def)
  show "(qv, rv, sv) \<in> set (validMoves (awaiting b p))" using legal by (simp add: awaiting_def)
qed

lemma reach_awaiting_step:
  assumes idle: "reach Idle (awaiting b p)"
    and legal: "(qv, rv, sv) \<in> set (calculateValidMoves p b)"
    and b': "b' = withPlacement b (qv, rv, sv) p (getFlips \<lparr>q = qv, r = rv, s = sv\<rparr> p b)"
    and p': "p' = opponentOf p"
    and ne: "calculateValidMoves p' b' \<noteq> []"
  shows "reach Idle (awaiting b' p')"
proof -
  let ?g = "handleCellClick qv rv sv (awaiting b p)"
  have pend: "reach Pending ?g" using idle legal by (rule reach_pending_step)
  have g: "?g = \<lparr>board = b', currentPlayer = p', validMoves = calculateValidMoves p b,
      gameOver = False, scores = calculateScores b'\<rparr>"
    using handleCellClick_awaiting [OF legal] b' p' by simp
  have "turnEffect ?g = awaiting b' p'"
    unfolding g using ne by (simp add: turnEffect_def awaiting_def Let_def)
  moreover have "reach Idle (turnEffect ?g)"
    using pend
  proof (rule reach.effect_done)
    show "currentPlayer (turnEffect ?g) = currentPlayer ?g"
      unfolding g using ne by (simp add: turnEffect_currentPlayer)
  qed
  ultimately show ?thesis by simp
qed

lemma passBoard_flips1:
  "getFlips \<lparr>q = - 2, r = 1, s = 1\<rparr> Black createInitialBoard =
     [(- 1, 1, 0)]"
  by code_simp

lemma passBoard_legal1: "(- 2, 1, 1) \<in> set (calculateValidMoves Black createInitialBoard)"
  using passBoard_flips1
  by (simp add: mem_calculateValidMoves coordOf_def onGrid_def isInBounds_def BOARD_RADIUS_def)

lemma passBoard_flips2:
  "getFlips \<lparr>q = - 3, r = 2, s = 1\<rparr> White passBoard1 =
     [(- 2, 1, 1), (- 1, 0, 1)]"
  by code_simp

lemma passBoard_legal2: "(- 3, 2, 1) \<in> set (calculateValidMoves White passBoard1)"
  using passBoard_flips2
  by (simp add: mem_calculateValidMoves coordOf_def onGrid_def isInBounds_def BOARD_RADIUS_def)

lemma passBoard_flips3:
  "getFlips \<lparr>q = 1, r = 1, s = - 2\<rparr> Black passBoard2 =
     [(1, 0, - 1)]"
  by code_simp

lemma passBoard_legal3: "(1, 1, - 2) \<in> set (calculateValidMoves Black passBoard2)"
  using passBoard_flips3
  by (simp add: mem_calculateValidMoves coordOf_def onGrid_def isInBounds_def BOARD_RADIUS_def)

lemma passBoard_flips4:
  "getFlips \<lparr>q = 2, r = - 1, s = - 1\<rparr> White passBoard3 =
     [(1, - 1, 0)]"
  by code_simp

lemma passBoard_legal4: "(2, - 1, - 1) \<in> set (calculateValidMoves White passBoard3)"
  using passBoard_flips4
  by (simp add: mem_calculateValidMoves coordOf_def onGrid_def isInBounds_def BOARD_RADIUS_def)

lemma passBoard_flips5:
  "getFlips \<lparr>q = 1, r = - 2, s = 1\<rparr> Black passBoard4 =
     [(1, - 1, 0)]"
  by code_simp

lemma passBoard_legal5: "(1, - 2, 1) \<in> set (calculateValidMoves Black passBoard4)"
  using passBoard_flips5
  by (simp add: mem_calculateValidMoves coordOf_def onGrid_def isInBounds_def BOARD_RADIUS_def)

lemma passBoard_flips6:
  "getFlips \<lparr>q = - 1, r = 2, s = - 1\<rparr> White passBoard5 =
     [(0, 1, - 1), (1, 0, - 1), (- 1, 1, 0)]"
  by code_simp

lemma passBoard_legal6: "(- 1, 2, - 1) \<in> set (calculateValidMoves White passBoard5)"
  using passBoard_flips6
  by (simp add: mem_calculateValidMoves coordOf_def onGrid_def isInBounds_def BOARD_RADIUS_def)

lemma passBoard_flips7:
  "getFlips \<lparr>q = - 4, r = 3, s = 1\<rparr> Black passBoard6 =
     [(- 3, 2, 1), (- 2, 1, 1), (- 1, 0, 1), (0, - 1, 1)]"
  by code_simp

lemma passBoard_legal7: "(- 4, 3, 1) \<in> set (calculateValidMoves Black passBoard6)"
  using passBoard_flips7
  by (simp add: mem_calculateValidMoves coordOf_def onGrid_def isInBounds_def BOARD_RADIUS_def)

lemma passBoard_flips8:
  "getFlips \<lparr>q = - 1, r = - 1, s = 2\<rparr> White passBoard7 =
     [(0, - 1, 1), (1, - 1, 0), (- 1, 0, 1)]"
  by code_simp

lemma passBoard_legal8: "(- 1, - 1, 2) \<in> set (calculateValidMoves White passBoard7)"
  using passBoard_flips8
  by (simp add: mem_calculateValidMoves coordOf_def onGrid_def isInBounds_def BOARD_RADIUS_def)

lemma passBoard_idle1: "reach Idle (awaiting passBoard1 White)"
proof (rule reach_awaiting_step [OF reach_awaiting_start passBoard_legal1])
  show "passBoard1 = withPlacement createInitialBoard (- 2, 1, 1) Black (getFlips \<lparr>q = - 2, r = 1, s = 1\<rparr> Black createInitialBoard)"
    by (simp add: passBoard1_def passBoard_flips1)
  show "White = opponentOf Black" by (simp add: opponentOf_def)
  show "calculateValidMoves White passBoard1 \<noteq> []" using passBoard_legal2 by auto
qed

lemma passBoard_idle2: "reach Idle (awaiting passBoard2 Black)"
proof (rule reach_awaiting_step [OF passBoard_idle1 passBoard_legal2])
  show "passBoard2 = withPlacement passBoard1 (- 3, 2, 1) White (getFlips \<lparr>q = - 3, r = 2, s = 1\<rparr> White passBoard1)"
    by (simp add: passBoard2_def passBoard_flips2)
  show "Black = opponentOf White" by (simp add: opponentOf_def)
  show "calculateValidMoves Black passBoard2 \<noteq> []" using passBoard_legal3 by auto
qed

lemma passBoard_idle3: "reach Idle (awaiting passBoard3 White)"
proof (rule reach_awaiting_step [OF passBoard_idle2 passBoard_legal3])
  show "passBoard3 = withPlacement passBoard2 (1, 1, - 2) Black (getFlips \<lparr>q = 1, r = 1, s = - 2\<rparr> Black passBoard2)"
    by (simp add: passBoard3_def passBoard_flips3)
  show "White = opponentOf Black" by (simp add: opponentOf_def)
  show "calculateValidMoves White passBoard3 \<noteq> []" using passBoard_legal4 by auto
qed

lemma passBoard_idle4: "reach Idle (awaiting passBoard4 Black)"
proof (rule reach_awaiting_step [OF passBoard_idle3 passBoard_legal4])
  show "passBoard4 = withPlacement passBoard3 (2, - 1, - 1) White (getFlips \<lparr>q = 2, r = - 1, s = - 1\<rparr> White passBoard3)"
    by (simp add: passBoard4_def passBoard_flips4)
  show "Black = opponentOf White" by (simp add: opponentOf_def)
  show "calculateValidMoves Black passBoard4 \<noteq> []" using passBoard_legal5 by auto
qed

lemma passBoard_idle5: "reach Idle (awaiting passBoard5 White)"
proof (rule reach_awaiting_step [OF passBoard_idle4 passBoard_legal5])
  show "passBoard5 = withPlacement passBoard4 (1, - 2, 1) Black (getFlips \<lparr>q = 1, r = - 2, s = 1\<rparr> Black passBoard4)"
    by (simp add: passBoard5_def passBoard_flips5)
  show "White = opponentOf Black" by (simp add: opponentOf_def)
  show "calculateValidMoves White passBoard5 \<noteq> []" using passBoard_legal6 by auto
qed

lemma passBoard_idle6: "reach Idle (awaiting passBoard6 Black)"
proof (rule reach_awaiting_step [OF passBoard_idle5 passBoard_legal6])
  show "passBoard6 = withPlacement passBoard5 (- 1, 2, - 1) White (getFlips \<lparr>q = - 1, r = 2, s = - 1\<rparr> White passBoard5)"
    by (simp add: passBoard6_def passBoard_flips6)
  show "Black = opponentOf White" by (simp add: opponentOf_def)
  show "calculateValidMoves Black passBoard6 \<noteq> []" using passBoard_legal7 by auto
qed

lemma passBoard_idle7: "reach Idle (awaiting passBoard7 White)"
proof (rule reach_awaiting_step [OF passBoard_idle6 passBoard_legal7])
  show "passBoard7 = withPlacement passBoard6 (- 4, 3, 1) Black (getFlips \<lparr>q = - 4, r = 3, s = 1\<rparr> Black passBoard6)"
    by (simp add: passBoard7_def passBoard_flips7)
  show "White = opponentOf Black" by (simp add: opponentOf_def)
  show "calculateValidMoves White passBoard7 \<noteq> []" using passBoard_legal8 by auto
qed

lemma endBoard_flips1:
  "getFlips \<lparr>q = 0, r = - 2, s = 2\<rparr> Black createInitialBoard =
     [(0, - 1, 1), (0, 0, 0)]"
  by code_simp

lemma endBoard_legal1: "(0, - 2, 2) \<in> set (calculateValidMoves Black createInitialBoard)"
  using endBoard_flips1
  by (simp add: mem_calculateValidMoves coordOf_def onGrid_def isInBounds_def BOARD_RADIUS_def)

lemma endBoard_flips2:
  "getFlips \<lparr>q = - 1, r = 2, s = - 1\<rparr> White endBoard1 =
     [(0, 1, - 1)]"
  by code_simp

lemma endBoard_legal2: "(- 1, 2, - 1) \<in> set (calculateValidMoves White endBoard1)"
  using endBoard_flips2
  by (simp add: mem_calculateValidMoves coordOf_def onGrid_def isInBounds_def BOARD_RADIUS_def)

lemma endBoard_flips3:
  "getFlips \<lparr>q = 2, r = 0, s = - 2\<rparr> Black endBoard2 =
     [(1, 0, - 1)]"
  by code_simp

lemma endBoard_legal3: "(2, 0, - 2) \<in> set (calculateValidMoves Black endBoard2)"
  using endBoard_flips3
  by (simp add: mem_calculateValidMoves coordOf_def onGrid_def isInBounds_def BOARD_RADIUS_def)

lemma endBoard_flips4:
  "getFlips \<lparr>q = 2, r = - 1, s = - 1\<rparr> White endBoard3 =
     [(1, 0, - 1)]"
  by code_simp

lemma endBoard_legal4: "(2, - 1, - 1) \<in> set (calculateValidMoves White endBoard3)"
  using endBoard_flips4
  by (simp add: mem_calculateValidMoves coordOf_def onGrid_def isInBounds_def BOARD_RADIUS_def)

lemma endBoard_flips5:
  "getFlips \<lparr>q = - 1, r = 3, s = - 2\<rparr> Black endBoard4 =
     [(- 1, 2, - 1), (- 1, 1, 0)]"
  by code_simp

lemma endBoard_legal5: "(- 1, 3, - 2) \<in> set (calculateValidMoves Black endBoard4)"
  using endBoard_flips5
  by (simp add: mem_calculateValidMoves coordOf_def onGrid_def isInBounds_def BOARD_RADIUS_def)

lemma endBoard_flips6:
  "getFlips \<lparr>q = 1, r = - 2, s = 1\<rparr> White endBoard5 =
     [(1, - 1, 0)]"
  by code_simp

lemma endBoard_legal6: "(1, - 2, 1) \<in> set (calculateValidMoves White endBoard5)"
  using endBoard_flips6
  by (simp add: mem_calculateValidMoves coordOf_def onGrid_def isInBounds_def BOARD_RADIUS_def)

lemma endBoard_flips7:
  "getFlips \<lparr>q = 2, r = - 2, s = 0\<rparr> Black endBoard6 =
     [(2, - 1, - 1), (1, - 1, 0), (1, - 2, 1)]"
  by code_simp

lemma endBoard_legal7: "(2, - 2, 0) \<in> set (calculateValidMoves Black endBoard6)"
  using endBoard_flips7
  by (simp add: mem_calculateValidMoves coordOf_def onGrid_def isInBounds_def BOARD_RADIUS_def)

lemma endBoard_flips8:
  "getFlips \<lparr>q = - 2, r = 3, s = - 1\<rparr> White endBoard7 =
     [(- 1, 2, - 1)]"
  by code_simp

lemma endBoard_legal8: "(- 2, 3, - 1) \<in> set (calculateValidMoves White endBoard7)"
  using endBoard_flips8
  by (simp add: mem_calculateValidMoves coordOf_def onGrid_def isInBounds_def BOARD_RADIUS_def)

lemma endBoard_flips9:
  "getFlips \<lparr>q = - 3, r = 4, s = - 1\<rparr> Black endBoard8 =
     [(- 2, 3, - 1), (- 1, 2, - 1), (0, 1, - 1), (1, 0, - 1)]"
  by code_simp

lemma endBoard_legal9: "(- 3, 4, - 1) \<in> set (calculateValidMoves Black endBoard8)"
  using endBoard_flips9
  by (simp add: mem_calculateValidMoves coordOf_def onGrid_def isInBounds_def BOARD_RADIUS_def)

lemma endBoard_idle1: "reach Idle (awaiting endBoard1 White)"
proof (rule reach_awaiting_step [OF reach_awaiting_start endBoard_legal1])
  show "endBoard1 = withPlacement createInitialBoard (0, - 2, 2) Black (getFlips \<lparr>q = 0, r = - 2, s = 2\<rparr> Black createInitialBoard)"
    by (simp add: endBoard1_def endBoard_flips1)
  show "White = opponentOf Black" by (simp add: opponentOf_def)
  show "calculateValidMoves White endBoard1 \<noteq> []" using endBoard_legal2 by auto
qed

lemma endBoard_idle2: "reach Idle (awaiting endBoard2 Black)"
proof (rule reach_awaiting_step [OF endBoard_idle1 endBoard_legal2])
  show "endBoard2 = withPlacement endBoard1 (- 1, 2, - 1) White (getFlips \<lparr>q = - 1, r = 2, s = - 1\<rparr> White endBoard1)"
    by (simp add: endBoard2_def endBoard_flips2)
  show "Black = opponentOf White" by (simp add: opponentOf_def)
  show "calculateValidMoves Black endBoard2 \<noteq> []" using endBoard_legal3 by auto
qed

lemma endBoard_idle3: "reach Idle (awaiting endBoard3 White)"
proof (rule reach_awaiting_step [OF endBoard_idle2 endBoard_legal3])
  show "endBoard3 = withPlacement endBoard2 (2, 0, - 2) Black (getFlips \<lparr>q = 2, r = 0, s = - 2\<rparr> Black endBoard2)"
    by (simp add: endBoard3_def endBoard_flips3)
  show "White = opponentOf Black" by (simp add: opponentOf_def)
  show "calculateValidMoves White endBoard3 \<noteq> []" using endBoard_legal4 by auto
qed

lemma endBoard_idle4: "reach Idle (awaiting endBoard4 Black)"
proof (rule reach_awaiting_step [OF endBoard_idle3 endBoard_legal4])
  show "endBoard4 = withPlacement endBoard3 (2, - 1, - 1) White (getFlips \<lparr>q = 2, r = - 1, s = - 1\<rparr> White endBoard3)"
    by (simp add: endBoard4_def endBoard_flips4)
  show "Black = opponentOf White" by (simp add: opponentOf_def)
  show "calculateValidMoves Black endBoard4 \<noteq> []" using endBoard_legal5 by auto
qed

lemma endBoard_idle5: "reach Idle (awaiting endBoard5 White)"
proof (rule reach_awaiting_step [OF endBoard_idle4 endBoard_legal5])
  show "endBoard5 = withPlacement endBoard4 (- 1, 3, - 2) Black (getFlips \<lparr>q = - 1, r = 3, s = - 2\<rparr> Black endBoard4)"
    by (simp add: endBoard5_def endBoard_flips5)
  show "White = opponentOf Black" by (simp add: opponentOf_def)
  show "calculateValidMoves White endBoard5 \<noteq> []" using endBoard_legal6 by auto
qed

lemma endBoard_idle6: "reach Idle (awaiting endBoard6 Black)"
proof (rule reach_awaiting_step [OF endBoard_idle5 endBoard_legal6])
  show "endBoard6 = withPlacement endBoard5 (1, - 2, 1) White (getFlips \<lparr>q = 1, r = - 2, s = 1\<rparr> White endBoard5)"
    by (simp add: endBoard6_def endBoard_flips6)
  show "Black = opponentOf White" by (simp add: opponentOf_def)
  show "calculateValidMoves Black endBoard6 \<noteq> []" using endBoard_legal7 by auto
qed

lemma endBoard_idle7: "reach Idle (awaiting endBoard7 White)"
proof (rule reach_awaiting_step [OF endBoard_idle6 endBoard_legal7])
  show "endBoard7 = withPlacement endBoard6 (2, - 2, 0) Black (getFlips \<lparr>q = 2, r = - 2, s = 0\<rparr> Black endBoard6)"
    by (simp add: endBoard7_def endBoard_flips7)
  show "White = opponentOf Black" by (simp add: opponentOf_def)
  show "calculateValidMoves White endBoard7 \<noteq> []" using endBoard_legal8 by auto
qed

lemma endBoard_idle8: "reach Idle (awaiting endBoard8 Black)"
proof (rule reach_awaiting_step [OF endBoard_idle7 endBoard_legal8])
  show "endBoard8 = withPlacement endBoard7 (- 2, 3, - 1) White (getFlips \<lparr>q = - 2, r = 3, s = - 1\<rparr> White endBoard7)"
    by (simp add: endBoard8_def endBoard_flips8)
  show "Black = opponentOf White" by (simp add: opponentOf_def)
  show "calculateValidMoves Black endBoard8 \<noteq> []" using endBoard_legal9 by auto
qed

lemma reach_passState: "reach Pending passState"
proof -
  have "reach Pending (handleCellClick (- 1) (- 1) 2 (awaiting passBoard7 White))"
    using passBoard_idle7 passBoard_legal8 by (rule reach_pending_step)
  moreover have "handleCellClick (- 1) (- 1) 2 (awaiting passBoard7 White) = passState"
    using handleCellClick_awaiting [OF passBoard_legal8]
    by (simp add: passState_def passBoard8_def passBoard_flips8 opponentOf_def)
  ultimately show ?thesis by simp
qed

lemma reach_endState: "reach Pending endState"
proof -
  have "reach Pending (handleCellClick (- 3) 4 (- 1) (awaiting endBoard8 Black))"
    using endBoard_idle8 endBoard_legal9 by (rule reach_pending_step)
  moreover have "handleCellClick (- 3) 4 (- 1) (awaiting endBoard8 Black) = endState"
    using handleCellClick_awaiting [OF endBoard_legal9]
    by (simp add: endState_def endBoard9_def endBoard_flips9 opponentOf_def)
  ultimately show ?thesis by simp
qed

lemma passBoard8_black: "calculateValidMoves Black passBoard8 = []"
  by code_simp

lemma passBoard8_white:
  "calculateValidMoves White passBoard8 =
     [(- 3, 1, 2), (1, - 3, 2), (1, 2, - 3), (2, - 3, 1), (2, 1, - 3)]"
  by code_simp

lemma endBoard9_white: "calculateValidMoves White endBoard9 = []"
  by code_simp

lemma endBoard9_black: "calculateValidMoves Black endBoard9 = []"
  by code_simp

lemma endBoard9_scores: "calculateScores endBoard9 = \<lparr>black = 16, white = 0\<rparr>"
  by code_simp

lemma passBoard8_scores: "calculateScores passBoard8 = \<lparr>black = 5, white = 10\<rparr>"
  by code_simp

section \<open>A legal move and the scores\<close>

lemma scoreOf_calculateScores: "scoreOf p (calculateScores b) = pieceCount p b"
  by (cases p) (simp_all add: scoreOf_def calculateScores_pieceCount)

lemma handleCellClick_accepted:
  assumes "\<not> gameOver g" and "(qv, rv, sv) \<in> set (validMoves g)"
  shows "board (handleCellClick qv rv sv g) =
           withPlacement (board g) (qv, rv, sv) (currentPlayer g)
             (getFlips (coordOf (qv, rv, sv)) (currentPlayer g) (board g))"
    and "scores (handleCellClick qv rv sv g) = calculateScores (board (handleCellClick qv rv sv g))"
    and "currentPlayer (handleCellClick qv rv sv g) = opponentOf (currentPlayer g)"
  using assms by (simp_all add: handleCellClick_def Let_def coordOf_def)

text \<open>
  C5. A legal move never lowers the mover's number of pieces and never raises the
  opponent's: placing the piece and turning the flipped keys only sets cells to the
  mover's colour. The same holds for the scores the component stores when it accepts
  the click of a legal move, which are the counts of the new board.
\<close>

theorem legal_move_counts:
  "(k \<in> set (calculateValidMoves player b) \<longrightarrow>
      pieceCount player b
        \<le> pieceCount player (withPlacement b k player (getFlips (coordOf k) player b))
      \<and> pieceCount (opponentOf player) (withPlacement b k player (getFlips (coordOf k) player b))
        \<le> pieceCount (opponentOf player) b)
   \<and> (reach Idle g \<and> (qv, rv, sv) \<in> set (calculateValidMoves (currentPlayer g) (board g)) \<longrightarrow>
      board (handleCellClick qv rv sv g) =
        withPlacement (board g) (qv, rv, sv) (currentPlayer g)
          (getFlips (coordOf (qv, rv, sv)) (currentPlayer g) (board g))
      \<and> scoreOf (currentPlayer g) (scores g)
        \<le> scoreOf (currentPlayer g) (scores (handleCellClick qv rv sv g))
      \<and> scoreOf (opponentOf (currentPlayer g)) (scores (handleCellClick qv rv sv g))
        \<le> scoreOf (opponentOf (currentPlayer g)) (scores g))"
proof (intro conjI impI)
  have up: "pieceCount p b0 \<le> pieceCount p (withPlacement b0 k0 p fs)" for p b0 k0 fs
  proof -
    have "pieceCount p b0 \<le> pieceCount p (DAList.update k0 p b0)"
      by (rule pieceCount_update_same)
    also have "\<dots> \<le> pieceCount p (withPlacement b0 k0 p fs)"
      unfolding withPlacement_def by (rule pieceCount_fold_same)
    finally show ?thesis .
  qed
  have down: "pieceCount (opponentOf p) (withPlacement b0 k0 p fs) \<le> pieceCount (opponentOf p) b0"
    for p b0 k0 fs
  proof -
    have "pieceCount (opponentOf p) (withPlacement b0 k0 p fs)
          \<le> pieceCount (opponentOf p) (DAList.update k0 p b0)"
      unfolding withPlacement_def by (rule pieceCount_fold_other) simp
    also have "\<dots> \<le> pieceCount (opponentOf p) b0"
      by (rule pieceCount_update_other) simp
    finally show ?thesis .
  qed
  show "pieceCount player b
        \<le> pieceCount player (withPlacement b k player (getFlips (coordOf k) player b))"
    by (rule up)
  show "pieceCount (opponentOf player) (withPlacement b k player (getFlips (coordOf k) player b))
        \<le> pieceCount (opponentOf player) b"
    by (rule down)
  assume a: "reach Idle g \<and> (qv, rv, sv) \<in> set (calculateValidMoves (currentPlayer g) (board g))"
  then have idle: "reach Idle g" and vm: "(qv, rv, sv) \<in> set (validMoves g)"
    using reach_Idle_validMoves [of g] by simp_all
  from vm have "validMoves g \<noteq> []" by auto
  then have ngo: "\<not> gameOver g" using reach_Idle_gameOver [OF idle] by simp
  have sc: "scores g = calculateScores (board g)" using idle by (rule reach_scores)
  note acc = handleCellClick_accepted [OF ngo vm]
  show "board (handleCellClick qv rv sv g) =
        withPlacement (board g) (qv, rv, sv) (currentPlayer g)
          (getFlips (coordOf (qv, rv, sv)) (currentPlayer g) (board g))"
    by (rule acc(1))
  show "scoreOf (currentPlayer g) (scores g)
        \<le> scoreOf (currentPlayer g) (scores (handleCellClick qv rv sv g))"
    by (simp add: acc(2) sc scoreOf_calculateScores acc(1) up)
  show "scoreOf (opponentOf (currentPlayer g)) (scores (handleCellClick qv rv sv g))
        \<le> scoreOf (opponentOf (currentPlayer g)) (scores g)"
    by (simp add: acc(2) sc scoreOf_calculateScores acc(1) down)
qed

theorem legal_move_counts_witness:
  "(2, 0, - 2) \<in> set (calculateValidMoves Black createInitialBoard)
   \<and> pieceCount Black createInitialBoard
       \<le> pieceCount Black
            (withPlacement createInitialBoard (2, 0, - 2) Black
               (getFlips (coordOf (2, 0, - 2)) Black createInitialBoard))
   \<and> pieceCount (opponentOf Black)
         (withPlacement createInitialBoard (2, 0, - 2) Black
            (getFlips (coordOf (2, 0, - 2)) Black createInitialBoard))
       \<le> pieceCount (opponentOf Black) createInitialBoard
   \<and> reach Idle (awaiting createInitialBoard Black)
   \<and> scoreOf Black (scores (awaiting createInitialBoard Black))
       \<le> scoreOf Black (scores (handleCellClick 2 0 (- 2) (awaiting createInitialBoard Black)))
   \<and> scoreOf White (scores (handleCellClick 2 0 (- 2) (awaiting createInitialBoard Black)))
       \<le> scoreOf White (scores (awaiting createInitialBoard Black))"
  using legal_sample reach_awaiting_start
    legal_move_counts [of "(2, 0, - 2)" Black createInitialBoard
      "awaiting createInitialBoard Black" 2 0 "- 2"]
  by (simp add: awaiting_def opponentOf_def)

section \<open>Passing and ending\<close>

text \<open>
  C3. Take a reachable state in which the player to move has no legal move, and let
  the effect run. If the opponent has a legal move, the turn is the opponent's, the
  board, the scores and the game-over flag are as before, and the next run of the effect
  stores the opponent's moves and leaves the turn there. If the opponent has none
  either, the game is over on the same board, and the banner names the colour with
  strictly more pieces on the board, or a draw when the two counts are equal.
\<close>

theorem no_moves_pass_or_end:
  assumes "reach ph g"
    and "calculateValidMoves (currentPlayer g) (board g) = []"
  shows "(calculateValidMoves (opponentOf (currentPlayer g)) (board g) \<noteq> [] \<longrightarrow>
            currentPlayer (turnEffect g) = opponentOf (currentPlayer g)
            \<and> board (turnEffect g) = board g
            \<and> scores (turnEffect g) = scores g
            \<and> gameOver (turnEffect g) = gameOver g
            \<and> currentPlayer (turnEffect (turnEffect g)) = opponentOf (currentPlayer g)
            \<and> validMoves (turnEffect (turnEffect g))
                = calculateValidMoves (opponentOf (currentPlayer g)) (board g))
         \<and> (calculateValidMoves (opponentOf (currentPlayer g)) (board g) = [] \<longrightarrow>
            gameOver (turnEffect g)
            \<and> board (turnEffect g) = board g
            \<and> winner (turnEffect g) =
                (if pieceCount Black (board g) > pieceCount White (board g) then BlackWins
                 else if pieceCount White (board g) > pieceCount Black (board g) then WhiteWins
                 else Draw))"
proof (intro conjI impI)
  assume opp: "calculateValidMoves (opponentOf (currentPlayer g)) (board g) \<noteq> []"
  show "currentPlayer (turnEffect g) = opponentOf (currentPlayer g)"
    using assms(2) opp by (simp add: turnEffect_currentPlayer)
  show "board (turnEffect g) = board g" by simp
  show "scores (turnEffect g) = scores g" by simp
  show "gameOver (turnEffect g) = gameOver g"
    using opp by (simp add: turnEffect_gameOver)
  show "currentPlayer (turnEffect (turnEffect g)) = opponentOf (currentPlayer g)"
    using assms(2) opp by (simp add: turnEffect_currentPlayer)
  show "validMoves (turnEffect (turnEffect g))
          = calculateValidMoves (opponentOf (currentPlayer g)) (board g)"
    using assms(2) opp by (simp add: turnEffect_currentPlayer)
next
  assume none: "calculateValidMoves (opponentOf (currentPlayer g)) (board g) = []"
  show "gameOver (turnEffect g)"
    using assms(2) none by (simp add: turnEffect_gameOver)
  show "board (turnEffect g) = board g" by simp
  have "scores g = calculateScores (board g)" using assms(1) by (rule reach_scores)
  then show "winner (turnEffect g) =
                (if pieceCount Black (board g) > pieceCount White (board g) then BlackWins
                 else if pieceCount White (board g) > pieceCount Black (board g) then WhiteWins
                 else Draw)"
    by (simp add: winner_def calculateScores_pieceCount)
qed

theorem no_moves_pass_or_end_witness:
  "reach Pending passState
   \<and> calculateValidMoves (currentPlayer passState) (board passState) = []
   \<and> calculateValidMoves (opponentOf (currentPlayer passState)) (board passState) \<noteq> []
   \<and> currentPlayer (turnEffect passState) = White
   \<and> board (turnEffect passState) = passBoard8
   \<and> \<not> gameOver (turnEffect passState)
   \<and> reach Pending endState
   \<and> calculateValidMoves (currentPlayer endState) (board endState) = []
   \<and> calculateValidMoves (opponentOf (currentPlayer endState)) (board endState) = []
   \<and> gameOver (turnEffect endState)
   \<and> board (turnEffect endState) = endBoard9
   \<and> winner (turnEffect endState) = BlackWins"
proof -
  have p1: "calculateValidMoves (currentPlayer passState) (board passState) = []"
    by (simp add: passState_def passBoard8_black)
  have p2: "calculateValidMoves (opponentOf (currentPlayer passState)) (board passState) \<noteq> []"
    by (simp add: passState_def opponentOf_def passBoard8_white)
  have e1: "calculateValidMoves (currentPlayer endState) (board endState) = []"
    by (simp add: endState_def endBoard9_white)
  have e2: "calculateValidMoves (opponentOf (currentPlayer endState)) (board endState) = []"
    by (simp add: endState_def opponentOf_def endBoard9_black)
  have counts: "pieceCount Black endBoard9 = 16" "pieceCount White endBoard9 = 0"
    using endBoard9_scores by (simp_all add: calculateScores_pieceCount)
  from no_moves_pass_or_end [OF reach_passState p1] p2
  have "currentPlayer (turnEffect passState) = White"
    "board (turnEffect passState) = passBoard8"
    "\<not> gameOver (turnEffect passState)"
    by (simp_all add: passState_def opponentOf_def)
  moreover from no_moves_pass_or_end [OF reach_endState e1] e2
  have "gameOver (turnEffect endState)"
    "board (turnEffect endState) = endBoard9"
    "winner (turnEffect endState) = BlackWins"
    using counts by (simp_all add: endState_def)
  ultimately show ?thesis
    using reach_passState reach_endState p1 p2 e1 e2 by simp
qed

section \<open>A click that is not a legal move\<close>

text \<open>
  C6, as the code has it. In a state that waits for a click, a click on a coordinate
  that is not a legal move of the player to move leaves the whole state as it was, and
  the call completes as every call of \<open>handleCellClick\<close> does, returning
  \<open>undefined\<close>: nothing tells the caller that the move was turned away. An occupied
  coordinate, one off the board and one that flips nothing are such coordinates.
\<close>

theorem illegal_click_ignored:
  assumes "reach Idle g"
  shows "((qv, rv, sv) \<notin> set (calculateValidMoves (currentPlayer g) (board g)) \<longrightarrow>
            handleCellClick qv rv sv g = g
            \<and> handleCellClick_completion qv rv sv g = ReturnsUndefined)
         \<and> (DAList.lookup (board g) (qv, rv, sv) \<noteq> None
              \<or> \<not> isInBounds \<lparr>q = qv, r = rv, s = sv\<rparr>
              \<or> getFlips \<lparr>q = qv, r = rv, s = sv\<rparr> (currentPlayer g) (board g) = []
            \<longrightarrow> (qv, rv, sv) \<notin> set (calculateValidMoves (currentPlayer g) (board g)))"
proof (intro conjI impI)
  assume "(qv, rv, sv) \<notin> set (calculateValidMoves (currentPlayer g) (board g))"
  then have "(qv, rv, sv) \<notin> set (validMoves g)"
    using reach_Idle_validMoves [OF assms] by simp
  then show "handleCellClick qv rv sv g = g" by (simp add: handleCellClick_def)
next
  show "handleCellClick_completion qv rv sv g = ReturnsUndefined"
    by (simp add: handleCellClick_completion_def)
next
  assume "DAList.lookup (board g) (qv, rv, sv) \<noteq> None
              \<or> \<not> isInBounds \<lparr>q = qv, r = rv, s = sv\<rparr>
              \<or> getFlips \<lparr>q = qv, r = rv, s = sv\<rparr> (currentPlayer g) (board g) = []"
  then show "(qv, rv, sv) \<notin> set (calculateValidMoves (currentPlayer g) (board g))"
    using getFlips_occupied [of "board g" "\<lparr>q = qv, r = rv, s = sv\<rparr>" "currentPlayer g"]
    by (auto simp: mem_calculateValidMoves coordOf_def onGrid_def keyOf_def)
qed

theorem illegal_click_ignored_witness:
  "reach Idle (awaiting createInitialBoard Black)
   \<and> DAList.lookup (board (awaiting createInitialBoard Black)) (0, 0, 0) \<noteq> None
   \<and> (0, 0, 0) \<notin> set (calculateValidMoves Black createInitialBoard)
   \<and> handleCellClick 0 0 0 (awaiting createInitialBoard Black) = awaiting createInitialBoard Black"
proof -
  have occ: "DAList.lookup (board (awaiting createInitialBoard Black)) (0, 0, 0) \<noteq> None"
    by (simp add: awaiting_def createInitialBoard_def)
  show ?thesis
    using reach_awaiting_start occ
      illegal_click_ignored [OF reach_awaiting_start, of 0 0 0]
    by (simp add: awaiting_def)
qed

text \<open>
  The claim as the specification words it has the rejection signalled to the caller.
  In the opening position a click on the occupied centre and a click on the legal cell
  \<open>(2, 0, -2)\<close> complete alike, and neither throws.
\<close>

theorem illegal_click_not_signalled:
  "(0, 0, 0) \<notin> set (calculateValidMoves Black createInitialBoard)
   \<and> (2, 0, - 2) \<in> set (calculateValidMoves Black createInitialBoard)
   \<and> handleCellClick_completion 0 0 0 (awaiting createInitialBoard Black)
       = handleCellClick_completion 2 0 (- 2) (awaiting createInitialBoard Black)
   \<and> handleCellClick_completion 0 0 0 (awaiting createInitialBoard Black) \<noteq> Throws"
proof -
  have "DAList.lookup createInitialBoard (0, 0, 0) \<noteq> None"
    by (simp add: createInitialBoard_def)
  then have "(0, 0, 0) \<notin> set (calculateValidMoves Black createInitialBoard)"
    using getFlips_occupied [of createInitialBoard "coordOf (0, 0, 0)" Black]
    by (simp add: mem_calculateValidMoves)
  then show ?thesis
    using legal_sample by (simp add: handleCellClick_completion_def)
qed

section \<open>The look-ahead of the computer player\<close>

lemma future_sample:
  "calculateValidMoves Black passBoard2 =
     [(- 3, 1, 2), (- 1, - 1, 2), (0, - 2, 2), (1, 1, - 2), (2, - 1, - 1)]"
  by code_simp

lemma withPlacement_sample:
  "withPlacement passBoard1 (keyOf \<lparr>q = - 3, r = 2, s = 1\<rparr>) White
     (getFlips \<lparr>q = - 3, r = 2, s = 1\<rparr> White passBoard1) = passBoard2"
  by (simp add: passBoard_flips2 passBoard2_def keyOf_def)

text \<open>
  C7, as the code has it. The look-ahead term is minus one half of the number of legal
  moves the opponent has on the board after the placement, and at \<open>HARD\<close> the score of
  a move that flips something is three times the flips plus twice the value of the
  position plus that term.
\<close>

theorem hard_lookahead_term:
  "evaluateFutureState coord player b =
     - (real (length (calculateValidMoves (opponentOf player)
           (withPlacement b (keyOf coord) player (getFlips coord player b)))) / 2)
   \<and> evaluateMove coord player b HARD rnd =
      (if getFlips coord player b = [] then NegInfinity
       else Num (real (length (getFlips coord player b)) * 3
                 + evaluatePosition (q coord) (r coord) (s coord) * 2
                 + evaluateFutureState coord player b))"
  by (simp add: evaluateFutureState_def evaluateMove_def Let_def)

text \<open>
  The term is not minus the number of replies: after white's move to \<open>(-3, 2, 1)\<close> in
  the first sample game black has five replies, and the term is \<open>-5/2\<close>.
\<close>

theorem lookahead_not_minus_count:
  "length (calculateValidMoves (opponentOf White)
      (withPlacement passBoard1 (keyOf \<lparr>q = - 3, r = 2, s = 1\<rparr>) White
         (getFlips \<lparr>q = - 3, r = 2, s = 1\<rparr> White passBoard1))) = 5
   \<and> evaluateFutureState \<lparr>q = - 3, r = 2, s = 1\<rparr> White passBoard1 = - (5 / 2)
   \<and> evaluateFutureState \<lparr>q = - 3, r = 2, s = 1\<rparr> White passBoard1
       \<noteq> - real (length (calculateValidMoves (opponentOf White)
             (withPlacement passBoard1 (keyOf \<lparr>q = - 3, r = 2, s = 1\<rparr>) White
                (getFlips \<lparr>q = - 3, r = 2, s = 1\<rparr> White passBoard1))))"
  by (simp add: evaluateFutureState_def Let_def withPlacement_sample opponentOf_def future_sample)

section \<open>The move of the computer player\<close>

lemma selectCPUMoveLoop_member:
  "selectCPUMoveLoop ms i p b d rnd best sc = Some k \<Longrightarrow> k \<in> set ms \<or> best = Some k"
proof (induction ms arbitrary: i best sc)
  case Nil
  then show ?case by simp
next
  case (Cons m ms)
  show ?case
  proof (cases "jsGreater (evaluateMove (coordOf m) p b d (rnd i)) sc")
    case True
    with Cons.prems have "selectCPUMoveLoop ms (Suc i) p b d rnd (Some m)
        (evaluateMove (coordOf m) p b d (rnd i)) = Some k"
      by (simp add: Let_def)
    from Cons.IH [OF this] show ?thesis by auto
  next
    case False
    with Cons.prems have "selectCPUMoveLoop ms (Suc i) p b d rnd best sc = Some k"
      by (simp add: Let_def)
    from Cons.IH [OF this] show ?thesis by auto
  qed
qed

lemma selectCPUMoveLoop_keeps:
  "best \<noteq> None \<Longrightarrow> selectCPUMoveLoop ms i p b d rnd best sc \<noteq> None"
proof (induction ms arbitrary: i best sc)
  case Nil
  then show ?case by simp
next
  case (Cons m ms)
  have a: "selectCPUMoveLoop ms (Suc i) p b d rnd (Some m)
        (evaluateMove (coordOf m) p b d (rnd i)) \<noteq> None"
    by (rule Cons.IH) simp
  have c: "selectCPUMoveLoop ms (Suc i) p b d rnd best sc \<noteq> None"
    using Cons.prems by (rule Cons.IH)
  show ?case
    using a c by (simp only: selectCPUMoveLoop.simps Let_def split: if_split) simp
qed

lemma evaluateMove_finite:
  "getFlips coord p b \<noteq> [] \<Longrightarrow> \<exists>x. evaluateMove coord p b d rnd = Num x"
  by (cases d) (simp_all add: evaluateMove_def Let_def)

lemma selectCPUMove_member:
  "selectCPUMove ms p b d rnd = Some k \<Longrightarrow> k \<in> set ms"
  using selectCPUMoveLoop_member [of ms 0 p b d rnd None NegInfinity k]
  by (simp add: selectCPUMove_def split: if_splits)

lemma selectCPUMove_legal_Some:
  assumes "ms \<noteq> []" and "getFlips (coordOf (hd ms)) p b \<noteq> []"
  shows "selectCPUMove ms p b d rnd \<noteq> None"
proof -
  from assms(1) obtain m rest where ms: "ms = m # rest" by (cases ms) auto
  with assms(2) obtain x where x: "evaluateMove (coordOf m) p b d (rnd 0) = Num x"
    using evaluateMove_finite [of "coordOf m" p b d "rnd 0"] by auto
  have "selectCPUMoveLoop rest (Suc 0) p b d rnd (Some m) (Num x) \<noteq> None"
    by (rule selectCPUMoveLoop_keeps) simp
  then show ?thesis by (simp add: selectCPUMove_def ms x Let_def)
qed

lemma cpuTimeoutCallback_legal:
  "board (cpuTimeoutCallback rnd bc d g) = board g
   \<or> (\<exists>k\<in>set (calculateValidMoves White bc).
         board (cpuTimeoutCallback rnd bc d g)
           = withPlacement bc k White (getFlips (coordOf k) White bc)
         \<and> lastMove (cpuTimeoutCallback rnd bc d g) = Some k)"
proof (cases "selectCPUMove (calculateValidMoves White bc) White bc d rnd")
  case None
  then show ?thesis by (simp add: cpuTimeoutCallback_def Let_def)
next
  case (Some k)
  then have "k \<in> set (calculateValidMoves White bc)" by (rule selectCPUMove_member)
  then show ?thesis
    using Some by (auto simp: cpuTimeoutCallback_def Let_def)
qed

section \<open>The number of pieces after a move\<close>

lemma reachAfter_reach: "reachAfter n ph g \<Longrightarrow> reach ph g"
  by (induction rule: reachAfter.induct) (auto intro: reach.intros)

lemma reach_reachAfter: "reach ph g \<Longrightarrow> \<exists>n. reachAfter n ph g"
  by (induction rule: reach.induct) (auto intro: reachAfter.intros)

lemma occupied_handleCellClick:
  assumes idle: "reach Idle g"
    and legal: "(qv, rv, sv) \<in> set (calculateValidMoves (currentPlayer g) (board g))"
  shows "occupied (board (handleCellClick qv rv sv g)) = Suc (occupied (board g))"
proof -
  have vm: "(qv, rv, sv) \<in> set (validMoves g)"
    using legal reach_Idle_validMoves [OF idle] by simp
  then have "validMoves g \<noteq> []" by auto
  then have ngo: "\<not> gameOver g" using reach_Idle_gameOver [OF idle] by simp
  show ?thesis
    using legal by (simp add: handleCellClick_accepted(1) [OF ngo vm] occupied_legal_move)
qed

lemma reachAfter_occupied: "reachAfter n ph g \<Longrightarrow> occupied (board g) = 7 + n"
proof (induction rule: reachAfter.induct)
  case mounted
  show ?case by (simp add: initialGame_def occupied_createInitialBoard)
next
  case (effect_runs_again n g)
  then show ?case by simp
next
  case (effect_settles n g)
  then show ?case by simp
next
  case (click_taken n g qv rv sv)
  have idle: "reach Idle g" using click_taken.hyps(1) by (rule reachAfter_reach)
  have "(qv, rv, sv) \<in> set (calculateValidMoves (currentPlayer g) (board g))"
    using click_taken.hyps(3) reach_Idle_validMoves [OF idle] by simp
  with idle have "occupied (board (handleCellClick qv rv sv g)) = Suc (occupied (board g))"
    by (rule occupied_handleCellClick)
  with click_taken.IH show ?case by simp
next
  case (reset_done n g)
  show ?case by (simp add: resetGame_def occupied_createInitialBoard)
qed

text \<open>
  C10. A legal move is played on an empty cell, every key it flips held an opponent
  piece, and the board has one occupied cell more afterwards. This holds of the board
  with the placement written out, and of the board \<open>handleCellClick\<close> leaves when the
  component takes the click of a legal move. So the state the component reaches with
  \<open>n\<close> moves since the opening holds \<open>7 + n\<close> pieces, and so does every board that is
  \<open>n\<close> legal moves from the opening.
\<close>

theorem legal_move_adds_one:
  "(k \<in> set (calculateValidMoves player b) \<longrightarrow>
      DAList.lookup b k = None
      \<and> (\<forall>f\<in>set (getFlips (coordOf k) player b). DAList.lookup b f = Some (opponentOf player))
      \<and> occupied (withPlacement b k player (getFlips (coordOf k) player b)) = occupied b + 1)
   \<and> (reach Idle g \<and> (qv, rv, sv) \<in> set (calculateValidMoves (currentPlayer g) (board g)) \<longrightarrow>
      DAList.lookup (board g) (qv, rv, sv) = None
      \<and> (\<forall>f\<in>set (getFlips \<lparr>q = qv, r = rv, s = sv\<rparr> (currentPlayer g) (board g)).
            DAList.lookup (board g) f = Some (opponentOf (currentPlayer g)))
      \<and> occupied (board (handleCellClick qv rv sv g)) = occupied (board g) + 1)
   \<and> (reachAfter n ph g' \<longrightarrow> occupied (board g') = 7 + n)
   \<and> (boardAfter n b' \<longrightarrow> occupied b' = 7 + n)"
proof (intro conjI impI)
  assume "k \<in> set (calculateValidMoves player b)"
  then show "DAList.lookup b k = None"
    and "occupied (withPlacement b k player (getFlips (coordOf k) player b)) = occupied b + 1"
    by (simp_all add: legal_move_free occupied_legal_move)
next
  show "\<forall>f\<in>set (getFlips (coordOf k) player b). DAList.lookup b f = Some (opponentOf player)"
    by (simp add: getFlips_opponent)
next
  assume a: "reach Idle g \<and> (qv, rv, sv) \<in> set (calculateValidMoves (currentPlayer g) (board g))"
  then show "DAList.lookup (board g) (qv, rv, sv) = None"
    using legal_move_free [of "(qv, rv, sv)" "currentPlayer g" "board g"] by blast
  show "\<forall>f\<in>set (getFlips \<lparr>q = qv, r = rv, s = sv\<rparr> (currentPlayer g) (board g)).
            DAList.lookup (board g) f = Some (opponentOf (currentPlayer g))"
    by (simp add: getFlips_opponent)
  show "occupied (board (handleCellClick qv rv sv g)) = occupied (board g) + 1"
    using a occupied_handleCellClick [of g qv rv sv] by simp
next
  assume "reachAfter n ph g'"
  then show "occupied (board g') = 7 + n" by (rule reachAfter_occupied)
next
  assume "boardAfter n b'"
  then show "occupied b' = 7 + n" by (rule boardAfter_occupied)
qed

lemma reachAfter_start: "reachAfter 0 Idle (awaiting createInitialBoard Black)"
proof -
  have ne: "calculateValidMoves Black createInitialBoard \<noteq> []"
    using legal_sample by auto
  have "turnEffect initialGame = awaiting createInitialBoard Black"
    using ne by (simp add: turnEffect_def initialGame_def awaiting_def Let_def
        calculateScores_createInitialBoard)
  moreover have "reachAfter 0 Idle (turnEffect initialGame)"
    using reachAfter.mounted ne
    by (intro reachAfter.effect_settles) (simp_all add: turnEffect_currentPlayer initialGame_def)
  ultimately show ?thesis by simp
qed

lemma reachAfter_sample:
  "reachAfter (Suc 0) Pending (handleCellClick 2 0 (- 2) (awaiting createInitialBoard Black))"
  using reachAfter_start
proof (rule reachAfter.click_taken)
  show "\<not> gameOver (awaiting createInitialBoard Black)" by (simp add: awaiting_def)
  show "(2, 0, - 2) \<in> set (validMoves (awaiting createInitialBoard Black))"
    using legal_sample by (simp add: awaiting_def)
qed

theorem legal_move_adds_one_witness:
  "(2, 0, - 2) \<in> set (calculateValidMoves Black createInitialBoard)
   \<and> reach Idle (awaiting createInitialBoard Black)
   \<and> reachAfter (Suc 0) Pending (handleCellClick 2 0 (- 2) (awaiting createInitialBoard Black))
   \<and> boardAfter (Suc 0)
       (withPlacement createInitialBoard (2, 0, - 2) Black
          (getFlips (coordOf (2, 0, - 2)) Black createInitialBoard))
   \<and> DAList.lookup createInitialBoard (2, 0, - 2) = None
   \<and> occupied createInitialBoard = 7
   \<and> occupied (board (handleCellClick 2 0 (- 2) (awaiting createInitialBoard Black))) = 8
   \<and> occupied (withPlacement createInitialBoard (2, 0, - 2) Black
          (getFlips (coordOf (2, 0, - 2)) Black createInitialBoard)) = 8"
  using legal_sample reach_awaiting_start reachAfter_sample boardAfter_sample
    occupied_createInitialBoard
    legal_move_adds_one [of "(2, 0, - 2)" Black createInitialBoard
      "awaiting createInitialBoard Black" 2 0 "- 2" "Suc 0" Pending
      "handleCellClick 2 0 (- 2) (awaiting createInitialBoard Black)"
      "withPlacement createInitialBoard (2, 0, - 2) Black
          (getFlips (coordOf (2, 0, - 2)) Black createInitialBoard)"]
  by (simp add: awaiting_def)

section \<open>The timers of the computer player\<close>

lemma cpuTimeoutCallback_result:
  "(calculateValidMoves White bc = [] \<longrightarrow>
      cpuTimeoutCallback rnd bc d g = g\<lparr>cpuThinking := False\<rparr>)
   \<and> (calculateValidMoves White bc \<noteq> [] \<longrightarrow>
      (\<exists>k\<in>set (calculateValidMoves White bc).
         selectCPUMove (calculateValidMoves White bc) White bc d rnd = Some k
         \<and> cpuTimeoutCallback rnd bc d g =
             g\<lparr>board := withPlacement bc k White (getFlips (coordOf k) White bc),
               scores := calculateScores (withPlacement bc k White (getFlips (coordOf k) White bc)),
               lastMove := Some k,
               currentPlayer := Black,
               cpuThinking := False\<rparr>))"
proof (intro conjI impI)
  assume "calculateValidMoves White bc = []"
  then show "cpuTimeoutCallback rnd bc d g = g\<lparr>cpuThinking := False\<rparr>"
    by (simp add: cpuTimeoutCallback_def)
next
  assume ne: "calculateValidMoves White bc \<noteq> []"
  let ?ms = "calculateValidMoves White bc"
  have "hd ?ms \<in> set ?ms" using ne by simp
  then have "getFlips (coordOf (hd ?ms)) White bc \<noteq> []"
    by (simp add: mem_calculateValidMoves)
  with ne have "selectCPUMove ?ms White bc d rnd \<noteq> None"
    by (intro selectCPUMove_legal_Some) simp_all
  then obtain k where k: "selectCPUMove ?ms White bc d rnd = Some k" by blast
  then have mem: "k \<in> set ?ms" by (rule selectCPUMove_member)
  have "cpuTimeoutCallback rnd bc d g =
             g\<lparr>board := withPlacement bc k White (getFlips (coordOf k) White bc),
               scores := calculateScores (withPlacement bc k White (getFlips (coordOf k) White bc)),
               lastMove := Some k,
               currentPlayer := Black,
               cpuThinking := False\<rparr>"
    using ne k by (simp add: cpuTimeoutCallback_def Let_def)
  with k mem show "\<exists>k\<in>set ?ms.
         selectCPUMove ?ms White bc d rnd = Some k
         \<and> cpuTimeoutCallback rnd bc d g =
             g\<lparr>board := withPlacement bc k White (getFlips (coordOf k) White bc),
               scores := calculateScores (withPlacement bc k White (getFlips (coordOf k) White bc)),
               lastMove := Some k,
               currentPlayer := Black,
               cpuThinking := False\<rparr>"
    by blast
qed

lemma cpuTurnEffect_adds_timer:
  assumes "gameMode (shown w) = Some CPU" "currentPlayer (shown w) = White"
    "\<not> gameOver (shown w)" "validMoves (shown w) \<noteq> []"
  shows "timers (cpuTurnEffect w) = timers w @ [(board (shown w), cpuDifficulty (shown w))]"
    and "shown (cpuTurnEffect w) = (shown w)\<lparr>cpuThinking := True\<rparr>"
  using assms by (simp_all add: cpuTurnEffect_def executeCPUMove_def Let_def)

lemma cpuTurnEffect_twice:
  assumes "gameMode (shown w) = Some CPU" "currentPlayer (shown w) = White"
    "\<not> gameOver (shown w)" "validMoves (shown w) \<noteq> []"
  shows "timers (cpuTurnEffect (cpuTurnEffect w)) =
     timers w @ [(board (shown w), cpuDifficulty (shown w)), (board (shown w), cpuDifficulty (shown w))]"
proof -
  have 1: "timers (cpuTurnEffect w) = timers w @ [(board (shown w), cpuDifficulty (shown w))]"
    and 2: "shown (cpuTurnEffect w) = (shown w)\<lparr>cpuThinking := True\<rparr>"
    using assms by (rule cpuTurnEffect_adds_timer)+
  have "timers (cpuTurnEffect (cpuTurnEffect w)) =
      timers (cpuTurnEffect w)
        @ [(board (shown (cpuTurnEffect w)), cpuDifficulty (shown (cpuTurnEffect w)))]"
    by (rule cpuTurnEffect_adds_timer) (simp_all add: 2 assms)
  then show ?thesis by (simp add: 1 2)
qed

section \<open>A callback that runs late\<close>

lemma white_moves_sample:
  "calculateValidMoves White passBoard1 =
     [(- 3, 2, 1), (- 2, 0, 2), (- 2, 2, 0), (- 1, 2, - 1), (0, 2, - 2), (1, - 2, 1),
      (2, - 2, 0), (2, - 1, - 1)]"
  by code_simp

lemma other_flips_sample:
  "map (\<lambda>k. length (getFlips (coordOf k) White passBoard1))
     [(- 2, 0, 2), (- 2, 2, 0), (- 1, 2, - 1), (0, 2, - 2), (1, - 2, 1), (2, - 2, 0), (2, - 1, - 1)]
   = [1, 1, 1, 1, 1, 1, 1]"
  by code_simp

lemma evaluateFutureState_le: "evaluateFutureState c p b \<le> 0"
  by (simp add: evaluateFutureState_def Let_def)

lemma evaluateMove_HARD_bound:
  "\<not> jsGreater (evaluateMove c p b HARD u)
       (Num (real (length (getFlips c p b)) * 3 + evaluatePosition (q c) (r c) (s c) * 2 + x))"
  if "0 \<le> x"
  using that evaluateFutureState_le [of c p b]
  by (simp add: evaluateMove_def Let_def)

lemma selectCPUMoveLoop_no_better:
  "\<forall>m\<in>set ms. \<forall>u. \<not> jsGreater (evaluateMove (coordOf m) p b d u) sc \<Longrightarrow>
   selectCPUMoveLoop ms i p b d rnd best sc = best"
  by (induction ms arbitrary: i) (simp_all add: Let_def)

lemma first_score_sample:
  "evaluateMove (coordOf (- 3, 2, 1)) White passBoard1 HARD u = Num (27 / 2)"
proof -
  have c: "coordOf (- 3, 2, 1) = \<lparr>q = - 3, r = 2, s = 1\<rparr>" by (simp add: coordOf_def)
  have "evaluateFutureState \<lparr>q = - 3, r = 2, s = 1\<rparr> White passBoard1 = - (5 / 2)"
    by (simp add: evaluateFutureState_def Let_def withPlacement_sample opponentOf_def future_sample)
  moreover have "evaluatePosition (- 3) 2 1 = 5"
    by (simp add: evaluatePosition_def cubeDistance_def BOARD_RADIUS_def)
  ultimately show ?thesis
    by (simp add: c evaluateMove_def Let_def passBoard_flips2)
qed

lemma other_scores_sample:
  assumes "m \<in> set [(- 2, 0, 2), (- 2, 2, 0), (- 1, 2, - 1), (0, 2, - 2), (1, - 2, 1),
      (2, - 2, 0), (2, - 1, - 1)]"
  shows "\<not> jsGreater (evaluateMove (coordOf m) White passBoard1 HARD u) (Num (27 / 2))"
proof -
  have len: "length (getFlips (coordOf m) White passBoard1) = 1"
    using assms other_flips_sample by auto
  have pos: "evaluatePosition (q (coordOf m)) (r (coordOf m)) (s (coordOf m)) = 1"
    using assms
    by (auto simp: coordOf_def evaluatePosition_def cubeDistance_def BOARD_RADIUS_def)
  have "\<not> jsGreater (evaluateMove (coordOf m) White passBoard1 HARD u)
       (Num (real (length (getFlips (coordOf m) White passBoard1)) * 3
             + evaluatePosition (q (coordOf m)) (r (coordOf m)) (s (coordOf m)) * 2 + 17 / 2))"
    by (rule evaluateMove_HARD_bound) simp
  then show ?thesis by (simp add: len pos)
qed

lemma select_sample:
  "selectCPUMove (calculateValidMoves White passBoard1) White passBoard1 HARD rnd
   = Some (- 3, 2, 1)"
proof -
  have "selectCPUMoveLoop [(- 2, 0, 2), (- 2, 2, 0), (- 1, 2, - 1), (0, 2, - 2), (1, - 2, 1),
      (2, - 2, 0), (2, - 1, - 1)] (Suc 0) White passBoard1 HARD rnd (Some (- 3, 2, 1))
      (Num (27 / 2)) = Some (- 3, 2, 1)"
    using other_scores_sample by (intro selectCPUMoveLoop_no_better) blast
  then show ?thesis
    by (simp add: white_moves_sample selectCPUMove_def first_score_sample Let_def)
qed

lemma late_callback_sample:
  "cpuTimeoutCallback rnd passBoard1 HARD g =
     g\<lparr>board := passBoard2, scores := calculateScores passBoard2,
       lastMove := Some (- 3, 2, 1), currentPlayer := Black, cpuThinking := False\<rparr>"
proof -
  have placed: "withPlacement passBoard1 (- 3, 2, 1) White
          (getFlips (coordOf (- 3, 2, 1)) White passBoard1) = passBoard2"
    using withPlacement_sample by (simp add: keyOf_def coordOf_def)
  have ne: "length (calculateValidMoves White passBoard1) \<noteq> 0"
    by (simp add: white_moves_sample)
  show ?thesis
    unfolding cpuTimeoutCallback_def Let_def select_sample
    using ne by (simp add: placed)
qed

lemma passBoard3_taken: "DAList.lookup passBoard3 (- 3, 2, 1) = Some White"
  by code_simp

lemma passBoard3_reply: "DAList.lookup passBoard3 (1, 1, - 2) = Some Black"
  by code_simp

lemma passBoard2_reply: "DAList.lookup passBoard2 (1, 1, - 2) = None"
  by code_simp

text \<open>
  C8 fails on the code. In \<open>staleWorld\<close> white is to move on \<open>passBoard3\<close> and the
  callback that waits first still holds \<open>passBoard1\<close>. When its timer runs out it plays
  \<open>(-3, 2, 1)\<close>, where white's own piece already lies, so the key is not a legal move
  of white on the board shown; and it writes \<open>passBoard2\<close> over that board, which takes
  black's piece at \<open>(1, 1, -2)\<close> away again.
\<close>

theorem late_callback_plays_illegal_key:
  "board (shown staleWorld) = passBoard3
   \<and> currentPlayer (shown staleWorld) = White
   \<and> timers staleWorld ! 0 = (passBoard1, HARD)
   \<and> lastMove (shown (timerFires 0 (\<lambda>i. 0) staleWorld)) = Some (- 3, 2, 1)
   \<and> (- 3, 2, 1) \<notin> set (calculateValidMoves White (board (shown staleWorld)))
   \<and> DAList.lookup (board (shown staleWorld)) (- 3, 2, 1) = Some White
   \<and> board (shown (timerFires 0 (\<lambda>i. 0) staleWorld)) = passBoard2
   \<and> DAList.lookup (board (shown staleWorld)) (1, 1, - 2) = Some Black
   \<and> DAList.lookup (board (shown (timerFires 0 (\<lambda>i. 0) staleWorld))) (1, 1, - 2) = None
   \<and> timers (timerFires 0 (\<lambda>i. 0) staleWorld) = [(passBoard3, HARD), (passBoard3, HARD)]"
proof -
  have "(- 3, 2, 1) \<notin> set (calculateValidMoves White passBoard3)"
    using passBoard3_taken legal_move_free [of "(- 3, 2, 1)" White passBoard3] by auto
  then show ?thesis
    by (simp add: staleWorld_def timerFires_def late_callback_sample passBoard3_taken
        passBoard3_reply passBoard2_reply)
qed

end
